(* ===== verification/Itch_Prelude.thy ===== *)
theory Itch_Prelude
  imports Complex_Main "HOL-Library.Word" "HOL-Library.AList"
begin

text \<open>
  Shared vocabulary of the development: the machine integers of the code, the two builds
  of the program, computations that may fault, folding such a computation over a list,
  and subspans of a byte buffer.

  The code is compiled either with assertions (a debug or sanitizer build) or without
  them (the \<open>RelWithDebInfo\<close> build that \<open>CMakeLists.txt\<close> selects by default defines
  \<open>NDEBUG\<close>). Operations that assert take the build as a parameter. A failed assertion
  and an operation the language leaves undefined are the two faults of a computation.
\<close>

type_synonym byte = "8 word"
type_synonym u8 = "8 word"
type_synonym u16 = "16 word"
type_synonym u32 = "32 word"
type_synonym u64 = "64 word"

named_theorems run_simps \<open>evaluation of computations that may fault\<close>
named_theorems subspan_simps \<open>subspans of byte buffers with concrete offsets\<close>

section \<open>Computations that may fault\<close>

datatype build = Debug | Release

datatype fault = AssertFailed | UndefinedBehaviour

type_synonym 'a run = "fault + 'a"

definition bind_run :: "'a run \<Rightarrow> ('a \<Rightarrow> 'b run) \<Rightarrow> 'b run" where
  "bind_run m f = (case m of Inl e \<Rightarrow> Inl e | Inr x \<Rightarrow> f x)"

definition map_run :: "('a \<Rightarrow> 'b) \<Rightarrow> 'a run \<Rightarrow> 'b run" where
  "map_run f m = (case m of Inl e \<Rightarrow> Inl e | Inr x \<Rightarrow> Inr (f x))"

text \<open>
  \<open>assert(P)\<close>: the argument is evaluated and tested in a debug build and is not even
  evaluated when \<open>NDEBUG\<close> is defined.
\<close>

definition assert_run :: "build \<Rightarrow> bool run \<Rightarrow> unit run" where
  "assert_run b m =
     (case b of
        Release \<Rightarrow> Inr ()
      | Debug \<Rightarrow> bind_run m (\<lambda>P. if P then Inr () else Inl AssertFailed))"

text \<open>A precondition of the language or its library: undefined behaviour when it fails.\<close>

definition require :: "bool \<Rightarrow> unit run" where
  "require P = (if P then Inr () else Inl UndefinedBehaviour)"

lemma bind_run_simps [simp]:
  "bind_run (Inr x) f = f x"
  "bind_run (Inl e) f = Inl e"
  by (simp_all add: bind_run_def)

lemma map_run_simps [simp]:
  "map_run g (Inr x) = Inr (g x)"
  "map_run g (Inl e) = Inl e"
  by (simp_all add: map_run_def)

lemma bind_run_Inr_iff: "bind_run m f = Inr y \<longleftrightarrow> (\<exists>x. m = Inr x \<and> f x = Inr y)"
  by (cases m) simp_all

lemma bind_run_assoc: "bind_run (bind_run m f) g = bind_run m (\<lambda>x. bind_run (f x) g)"
  by (cases m) simp_all

lemma bind_run_cong [fundef_cong]:
  "m = m' \<Longrightarrow> (\<And>x. m' = Inr x \<Longrightarrow> f x = g x) \<Longrightarrow> bind_run m f = bind_run m' g"
  by (cases m') simp_all

lemma map_run_bind: "map_run f (bind_run m k) = bind_run m (\<lambda>x. map_run f (k x))"
  by (cases m) simp_all

lemma bind_map_run: "bind_run (map_run f m) k = bind_run m (\<lambda>x. k (f x))"
  by (cases m) simp_all

lemma bind_run_if: "bind_run (if P then m else m') k = (if P then bind_run m k else bind_run m' k)"
  by simp

lemma map_run_Inr_iff: "map_run f m = Inr y \<longleftrightarrow> (\<exists>x. m = Inr x \<and> y = f x)"
  by (cases m) auto

lemma assert_run_simps [simp]:
  "assert_run Release m = Inr ()"
  "assert_run b (Inr True) = Inr ()"
  "assert_run Debug (Inr False) = Inl AssertFailed"
  "assert_run Debug (Inl e) = Inl e"
  by (simp_all add: assert_run_def split: build.split)

lemma assert_run_holds: "m = Inr True \<Longrightarrow> assert_run b m = Inr ()"
  by simp

lemma require_simps [simp]:
  "require True = Inr ()"
  "require False = Inl UndefinedBehaviour"
  by (simp_all add: require_def)

text \<open>A loop that feeds the elements of a list to a state transformer, in order.\<close>

fun fold_run :: "('a \<Rightarrow> 's \<Rightarrow> 's run) \<Rightarrow> 'a list \<Rightarrow> 's \<Rightarrow> 's run" where
  "fold_run f [] s = Inr s"
| "fold_run f (x # xs) s = bind_run (f x s) (fold_run f xs)"

lemma fold_run_append: "fold_run f (xs @ ys) s = bind_run (fold_run f xs s) (fold_run f ys)"
  by (induction xs arbitrary: s) (auto simp: bind_run_def split: sum.split)

lemma fold_run_invariant:
  assumes "fold_run f xs s = Inr s'" and "I s"
    and "\<And>x s s'. x \<in> set xs \<Longrightarrow> I s \<Longrightarrow> f x s = Inr s' \<Longrightarrow> I s'"
  shows "I s'"
  using assms
proof (induction xs arbitrary: s)
  case Nil
  then show ?case by simp
next
  case (Cons x xs)
  from Cons.prems(1) obtain t where t: "f x s = Inr t" "fold_run f xs t = Inr s'"
    by (auto simp: bind_run_Inr_iff)
  have "I t" using Cons.prems(2,3) t(1) by (meson list.set_intros(1))
  with t(2) show ?case by (rule Cons.IH) (meson Cons.prems(3) list.set_intros(2))
qed

lemma fold_run_total:
  assumes "\<And>x s. x \<in> set xs \<Longrightarrow> \<exists>s'. f x s = Inr s'"
  shows "\<exists>s'. fold_run f xs s = Inr s'"
  using assms
proof (induction xs arbitrary: s)
  case Nil
  then show ?case by simp
next
  case (Cons x xs)
  from Cons.prems obtain t where "f x s = Inr t" by fastforce
  with Cons show ?case by simp
qed

section \<open>Subspans of a buffer\<close>

text \<open>\<open>subspan xs i n\<close> is \<open>xs.subspan(i, n)\<close>: the \<open>n\<close> elements from offset \<open>i\<close> on.\<close>

definition subspan :: "'a list \<Rightarrow> nat \<Rightarrow> nat \<Rightarrow> 'a list" where
  "subspan xs i n = take n (drop i xs)"

lemma length_subspan [simp]: "length (subspan xs i n) = min n (length xs - i)"
  by (simp add: subspan_def)

lemma length_subspan_in [simp]: "i + n \<le> length xs \<Longrightarrow> length (subspan xs i n) = n"
  by simp

lemma subspan_Cons_join [subspan_simps]:
  "k = i + 1 \<Longrightarrow> i < length xs \<Longrightarrow> xs ! i # subspan xs k m = subspan xs i (1 + m)"
  by (simp add: subspan_def Cons_nth_drop_Suc [symmetric])

lemma subspan_Cons_join_append [subspan_simps]:
  "k = i + 1 \<Longrightarrow> i < length xs \<Longrightarrow>
     xs ! i # subspan xs k m @ ys = subspan xs i (1 + m) @ ys"
  by (simp add: subspan_def Cons_nth_drop_Suc [symmetric])

lemma subspan_snoc [subspan_simps]:
  "k = i + n \<Longrightarrow> k < length xs \<Longrightarrow> subspan xs i n @ [xs ! k] = subspan xs i (n + 1)"
  by (simp add: subspan_def take_Suc_conv_app_nth)

lemma subspan_all: "length xs = n \<Longrightarrow> subspan xs 0 n = xs"
  by (simp add: subspan_def)

lemma subspan_join [subspan_simps]:
  "k = i + n \<Longrightarrow> subspan xs i n @ subspan xs k m = subspan xs i (n + m)"
  by (metis add.commute drop_drop subspan_def take_add)

lemma subspan_join_append [subspan_simps]:
  "k = i + n \<Longrightarrow> subspan xs i n @ subspan xs k m @ ys = subspan xs i (n + m) @ ys"
  by (simp flip: append_assoc add: subspan_join)

lemma subspan_skip:
  "length xs \<le> i \<Longrightarrow> subspan (xs @ ys) i n = subspan ys (i - length xs) n"
  by (simp add: subspan_def)

lemma subspan_here: "length xs = n \<Longrightarrow> subspan (xs @ ys) 0 n = xs"
  by (simp add: subspan_def)

lemma subspan_Cons: "0 < i \<Longrightarrow> subspan (x # xs) i n = subspan xs (i - 1) n"
  by (cases i) (simp_all add: subspan_def)

lemma subspan_single: "i < length xs \<Longrightarrow> subspan xs i 1 = [xs ! i]"
  by (simp add: subspan_def take_Suc_conv_app_nth hd_drop_conv_nth take_Suc Cons_nth_drop_Suc [symmetric])

lemma nth_subspan: "j < n \<Longrightarrow> i + n \<le> length xs \<Longrightarrow> subspan xs i n ! j = xs ! (i + j)"
  by (simp add: subspan_def)


section \<open>Widening 32-bit values\<close>

lemma unat_ucast_u64: "unat (ucast (x :: u32) :: u64) = unat x"
proof -
  have "unat x < 2 ^ LENGTH(32)" by (rule unsigned_less)
  then have "unat x < 2 ^ 64" by simp
  then show ?thesis by (simp add: unsigned_ucast_eq take_bit_nat_eq_self)
qed

lemma ucast_sub_u64:
  fixes a x :: u32
  assumes "a \<le> x"
  shows "(ucast (x - a) :: u64) = ucast x - ucast a"
proof (rule unsigned_word_eqI [where ?'a = nat])
  have "(ucast a :: u64) \<le> ucast x"
    using assms by (simp add: word_le_nat_alt unat_ucast_u64)
  then show "unat (ucast (x - a) :: u64) = unat (ucast x - ucast a :: u64)"
    using assms by (simp add: unat_sub unat_ucast_u64)
qed

lemma ucast_max_u64: "(ucast (- 1 :: u32) :: u64) = 4294967295"
  by (simp add: word_unat_eq_iff unsigned_minus_1_eq_mask mask_eq_exp_minus_1)

end
