(* ===== verification/Byte_Reader.thy ===== *)
theory Byte_Reader
  imports Itch_Prelude
begin

text \<open>
  \<open>include/itch/byte_reader.hpp\<close>: the byte order primitives and the big-endian field
  accessors of a record.

  A record is the list of its bytes. \<open>memcpy\<close> into an unsigned integer on the
  little-endian hosts the code is built for is \<open>le_word\<close>; the compiler's byte swap
  reverses the bytes of the value. Every accessor first asserts its bounds; in a build
  without assertions an access past the end of the record is undefined behaviour.
\<close>

unbundle bit_operations_syntax

section \<open>Byte order\<close>

fun le_word :: "byte list \<Rightarrow> 'a::len word" where
  "le_word [] = 0"
| "le_word (x # xs) = ucast x OR push_bit 8 (le_word xs)"

fun le_bytes :: "nat \<Rightarrow> 'a::len word \<Rightarrow> byte list" where
  "le_bytes 0 w = []"
| "le_bytes (Suc n) w = ucast w # le_bytes n (drop_bit 8 w)"

definition byteswap :: "'a::len word \<Rightarrow> 'a word" where
  "byteswap value = le_word (rev (le_bytes (LENGTH('a) div 8) value))"

definition load_big_endian :: "byte list \<Rightarrow> 'a::len word" where
  "load_big_endian source = byteswap (le_word source)"

text \<open>What the field means, independently of how it is loaded.\<close>

definition be_value :: "byte list \<Rightarrow> nat" where
  "be_value xs = foldl (\<lambda>acc x. acc * 256 + unat x) 0 xs"

fun le_value :: "byte list \<Rightarrow> nat" where
  "le_value [] = 0"
| "le_value (x # xs) = unat x + 256 * le_value xs"

lemma length_le_bytes [simp]: "length (le_bytes n w) = n"
  by (induction n arbitrary: w) simp_all

lemma be_value_rev: "be_value (rev xs) = le_value xs"
  by (induction xs) (simp_all add: be_value_def)

lemma bit_le_word:
  "bit (le_word xs :: 'a::len word) i \<longleftrightarrow>
     i < LENGTH('a) \<and> i div 8 < length xs \<and> bit (xs ! (i div 8)) (i mod 8)"
proof (induction xs arbitrary: i)
  case Nil
  then show ?case by simp
next
  case (Cons x xs)
  show ?case
  proof (cases "i < 8")
    case True
    then show ?thesis by (auto simp: bit_or_iff bit_ucast_iff bit_push_bit_iff)
  next
    case False
    then obtain j where i: "i = j + 8" by (metis add.commute le_Suc_ex not_less)
    have "(j + 8) div 8 = Suc (j div 8)" by simp
    then show ?thesis
      using Cons.IH [of j]
      by (auto simp: i bit_or_iff bit_ucast_iff bit_push_bit_iff dest: bit_imp_le_length)
  qed
qed

lemma le_bytes_nth_bit:
  "i < n \<Longrightarrow> j < 8 \<Longrightarrow> bit (le_bytes n w ! i) j \<longleftrightarrow> bit w (8 * i + j)"
proof (induction n arbitrary: i w)
  case 0
  then show ?case by simp
next
  case (Suc n)
  then show ?case
    by (cases i) (auto simp: bit_ucast_iff bit_drop_bit_eq ac_simps)
qed

text \<open>Storing the bytes of a loaded value gives the bytes back, and the other way round.\<close>

lemma le_bytes_le_word:
  assumes "length xs = n" and "8 * n \<le> LENGTH('a)"
  shows "le_bytes n (le_word xs :: 'a::len word) = xs"
proof (rule nth_equalityI)
  show "length (le_bytes n (le_word xs :: 'a word)) = length xs"
    using assms(1) by simp
  fix i assume "i < length (le_bytes n (le_word xs :: 'a word))"
  then have i: "i < n" by simp
  show "le_bytes n (le_word xs :: 'a word) ! i = xs ! i"
  proof (rule bit_word_eqI)
    fix j assume "j < LENGTH(8)"
    then have "j < 8" by simp
    with i assms show "bit (le_bytes n (le_word xs :: 'a word) ! i) j = bit (xs ! i) j"
      by (auto simp: le_bytes_nth_bit bit_le_word)
  qed
qed

lemma le_word_le_bytes:
  "le_word (le_bytes n w) = (ucast (take_bit (8 * n) w) :: 'b::len word)"
  by (rule bit_word_eqI)
    (auto simp: bit_le_word le_bytes_nth_bit bit_ucast_iff bit_take_bit_iff
      div_less_iff_less_mult)

lemma le_value_bound: "le_value xs < 256 ^ length xs"
proof (induction xs)
  case Nil
  then show ?case by simp
next
  case (Cons x xs)
  have "unat x < 256" using unsigned_less [of x] by simp
  with Cons show ?case by simp
qed

lemma unat_le_word:
  "8 * length xs \<le> LENGTH('a) \<Longrightarrow> unat (le_word xs :: 'a::len word) = le_value xs"
proof (induction xs)
  case Nil
  then show ?case by simp
next
  case (Cons x xs)
  let ?w = "le_word xs :: 'a word"
  have len: "8 * Suc (length xs) \<le> LENGTH('a)" using Cons.prems by simp
  have "le_value (x # xs) < 256 ^ Suc (length xs)"
    using le_value_bound [of "x # xs"] by simp
  also have "\<dots> = 2 ^ (8 * Suc (length xs))" by (simp add: power_mult power_add)
  also have "\<dots> \<le> 2 ^ LENGTH('a)" using len by (intro power_increasing) auto
  finally have fits: "unat x + 256 * le_value xs < 2 ^ LENGTH('a)" by simp
  have x: "unat (ucast x :: 'a word) = unat x"
    using fits by (simp add: unsigned_ucast_eq take_bit_nat_eq_self)
  have "unat (push_bit 8 ?w) = take_bit LENGTH('a) (push_bit 8 (unat ?w))"
    by (rule unsigned_push_bit_eq)
  also have "\<dots> = 256 * le_value xs"
    using fits Cons by (simp add: push_bit_eq_mult take_bit_nat_eq_self)
  finally have w: "unat (push_bit 8 ?w) = 256 * le_value xs" .
  have "ucast x OR push_bit 8 ?w = ucast x + push_bit 8 ?w"
    by (rule disjunctive_add [symmetric])
      (auto simp: bit_ucast_iff bit_push_bit_iff dest: bit_imp_le_length)
  then show ?case using x w fits by (simp add: unat_word_ariths)
qed

lemma load_big_endian_rev:
  assumes "length xs = LENGTH('a) div 8"
  shows "load_big_endian xs = (le_word (rev xs) :: 'a::len word)"
  using assms by (simp add: load_big_endian_def byteswap_def le_bytes_le_word)

lemma unat_load_big_endian:
  assumes "length xs = LENGTH('a) div 8"
  shows "unat (load_big_endian xs :: 'a::len word) = be_value xs"
proof -
  have "unat (le_word (rev xs) :: 'a word) = le_value (rev xs)"
    by (rule unat_le_word) (simp add: assms)
  then show ?thesis
    using assms be_value_rev [of "rev xs"] by (simp add: load_big_endian_rev)
qed

section \<open>ByteReader\<close>

text \<open>
  A \<open>char\<close> of the code is one byte; \<open>char_of_byte\<close> and \<open>byte_of_char\<close> are the casts
  between the two.
\<close>

definition char_of_byte :: "byte \<Rightarrow> char" where
  "char_of_byte x = char_of (unat x)"

definition byte_of_char :: "char \<Rightarrow> byte" where
  "byte_of_char c = of_char c"

lemma unat_byte_of_char: "unat (byte_of_char c) = of_char c"
  by (simp add: byte_of_char_def of_char_def horner_sum_eq_sum)

lemma char_of_byte_of_char [simp]: "char_of_byte (byte_of_char c) = c"
  by (simp add: char_of_byte_def unat_byte_of_char)

lemma byte_of_char_of_byte [simp]: "byte_of_char (char_of_byte x) = x"
proof -
  have "unat x < 256" using unsigned_less [of x] by simp
  then have "unat (byte_of_char (char_of_byte x)) = unat x"
    by (simp add: unat_byte_of_char) (simp add: char_of_byte_def of_char_of)
  then show ?thesis by (rule unsigned_word_eqI)
qed

lemma char_of_byte_inj: "char_of_byte x = char_of_byte y \<longleftrightarrow> x = y"
  by (metis byte_of_char_of_byte)

text \<open>The bounds check of every accessor: the assertion, then the access itself.\<close>

definition check_bounds :: "build \<Rightarrow> byte list \<Rightarrow> nat \<Rightarrow> nat \<Rightarrow> unit run" where
  "check_bounds b record offset n =
     bind_run (assert_run b (Inr (offset + n \<le> length record)))
       (\<lambda>_. require (offset + n \<le> length record))"

definition read_u8 :: "build \<Rightarrow> byte list \<Rightarrow> nat \<Rightarrow> u8 run" where
  "read_u8 b record offset =
     bind_run (check_bounds b record offset 1) (\<lambda>_. Inr (record ! offset))"

definition read_char :: "build \<Rightarrow> byte list \<Rightarrow> nat \<Rightarrow> char run" where
  "read_char b record offset = map_run char_of_byte (read_u8 b record offset)"

definition read_u16 :: "build \<Rightarrow> byte list \<Rightarrow> nat \<Rightarrow> u16 run" where
  "read_u16 b record offset =
     bind_run (check_bounds b record offset 2)
       (\<lambda>_. Inr (load_big_endian (subspan record offset 2)))"

definition read_u32 :: "build \<Rightarrow> byte list \<Rightarrow> nat \<Rightarrow> u32 run" where
  "read_u32 b record offset =
     bind_run (check_bounds b record offset 4)
       (\<lambda>_. Inr (load_big_endian (subspan record offset 4)))"

definition read_u64 :: "build \<Rightarrow> byte list \<Rightarrow> nat \<Rightarrow> u64 run" where
  "read_u64 b record offset =
     bind_run (check_bounds b record offset 8)
       (\<lambda>_. Inr (load_big_endian (subspan record offset 8)))"

text \<open>The six bytes are copied behind two zero bytes of an 8-byte array.\<close>

definition read_u48 :: "build \<Rightarrow> byte list \<Rightarrow> nat \<Rightarrow> u64 run" where
  "read_u48 b record offset =
     bind_run (check_bounds b record offset 6)
       (\<lambda>_. let widened = replicate 2 0 @ subspan record offset 6
             in Inr (load_big_endian widened))"

definition read_alpha :: "nat \<Rightarrow> build \<Rightarrow> byte list \<Rightarrow> nat \<Rightarrow> string run" where
  "read_alpha n b record offset =
     bind_run (check_bounds b record offset n)
       (\<lambda>_. Inr (map char_of_byte (subspan record offset n)))"

lemmas reader_defs =
  read_u8_def read_char_def read_u16_def read_u32_def read_u64_def read_u48_def read_alpha_def

lemma check_bounds_in [simp]: "offset + n \<le> length r \<Longrightarrow> check_bounds b r offset n = Inr ()"
  by (simp add: check_bounds_def)

lemma check_bounds_out:
  "\<not> offset + n \<le> length r \<Longrightarrow>
     check_bounds b r offset n = Inl (if b = Debug then AssertFailed else UndefinedBehaviour)"
  by (cases b) (simp_all add: check_bounds_def)

text \<open>Within bounds no accessor faults, in either build.\<close>

lemma reads_in_bounds [run_simps]:
  "offset + 1 \<le> length r \<Longrightarrow> read_u8 b r offset = Inr (r ! offset)"
  "offset + 1 \<le> length r \<Longrightarrow> read_char b r offset = Inr (char_of_byte (r ! offset))"
  "offset + 2 \<le> length r \<Longrightarrow> read_u16 b r offset = Inr (load_big_endian (subspan r offset 2))"
  "offset + 4 \<le> length r \<Longrightarrow> read_u32 b r offset = Inr (load_big_endian (subspan r offset 4))"
  "offset + 8 \<le> length r \<Longrightarrow> read_u64 b r offset = Inr (load_big_endian (subspan r offset 8))"
  "offset + 6 \<le> length r \<Longrightarrow>
     read_u48 b r offset = Inr (load_big_endian (replicate 2 0 @ subspan r offset 6))"
  "offset + n \<le> length r \<Longrightarrow>
     read_alpha n b r offset = Inr (map char_of_byte (subspan r offset n))"
  by (simp_all add: reader_defs)

end
