(* ===== verification/Message_Table.thy ===== *)
theory Message_Table
  imports Byte_Reader
begin

text \<open>
  \<open>include/itch/message_table.hpp\<close> and \<open>src/message_table.cpp\<close>: the 256-entry table of
  message lengths, filled by the constructor's sequence of \<open>set\<close> calls and indexed by the
  type byte. The lemmas turn the array into a lookup in the list of entries.
\<close>

definition kHeaderLength :: nat where
  "kHeaderLength = 11"

text \<open>The \<open>set(type, length)\<close> calls, in order.\<close>

definition spec_length_entries :: "(char \<times> u16) list" where
  "spec_length_entries =
     [(CHR ''S'', 12), (CHR ''A'', 36), (CHR ''F'', 40), (CHR ''E'', 31), (CHR ''C'', 36),
      (CHR ''X'', 23), (CHR ''D'', 19), (CHR ''U'', 35), (CHR ''P'', 44),
      (CHR ''R'', 39), (CHR ''H'', 25), (CHR ''Y'', 20), (CHR ''L'', 26), (CHR ''V'', 35),
      (CHR ''W'', 12), (CHR ''K'', 28), (CHR ''J'', 35), (CHR ''h'', 21), (CHR ''Q'', 40),
      (CHR ''B'', 19), (CHR ''I'', 50), (CHR ''N'', 20)]"

definition set_length :: "u16 list \<Rightarrow> char \<times> u16 \<Rightarrow> u16 list" where
  "set_length lengths entry = lengths[of_char (fst entry) := snd entry]"

definition kSpecLengths :: "u16 list" where
  "kSpecLengths = foldl set_length (replicate 256 0) spec_length_entries"

definition spec_message_length :: "char \<Rightarrow> u16" where
  "spec_message_length message_type = kSpecLengths ! of_char message_type"

text \<open>The declared length of a type, as a number of bytes.\<close>

abbreviation spec_size :: "char \<Rightarrow> nat" where
  "spec_size c \<equiv> unat (spec_message_length c)"

section \<open>The table as a lookup\<close>

lemma of_char_inj: "(of_char c :: nat) = of_char d \<longleftrightarrow> c = d"
  using inj_of_char [where ?'a = nat] by (auto dest: injD)

lemma length_foldl_set_length [simp]: "length (foldl set_length ls es) = length ls"
  by (induction es arbitrary: ls) (simp_all add: set_length_def)

lemma set_length_nth:
  "length ls = 256 \<Longrightarrow>
     set_length ls (a, n) ! of_char c = (if c = a then n else ls ! of_char c)"
  by (simp add: set_length_def nth_list_update of_char_inj)

lemma foldl_set_length_nth:
  "length ls = 256 \<Longrightarrow>
     foldl set_length ls es ! of_char c =
       (case map_of (rev es) c of None \<Rightarrow> ls ! of_char c | Some n \<Rightarrow> n)"
proof (induction es arbitrary: ls rule: rev_induct)
  case Nil
  then show ?case by simp
next
  case (snoc e es)
  show ?case
    using snoc.IH [OF snoc.prems] snoc.prems by (cases e) (simp add: set_length_nth)
qed

lemma spec_message_length_eq:
  "spec_message_length c =
     (case map_of (rev spec_length_entries) c of None \<Rightarrow> 0 | Some n \<Rightarrow> n)"
  by (simp add: spec_message_length_def kSpecLengths_def foldl_set_length_nth
      split: option.split)

text \<open>No entry is set twice, so the order of the calls does not matter.\<close>

lemma distinct_entries: "distinct (map fst spec_length_entries)"
  by (simp add: spec_length_entries_def)

lemma spec_message_length_iff:
  "n \<noteq> 0 \<Longrightarrow> spec_message_length c = n \<longleftrightarrow> (c, n) \<in> set spec_length_entries"
  using distinct_entries map_of_eq_Some_iff [of "rev spec_length_entries" c n]
  by (auto simp: spec_message_length_eq rev_map [symmetric] split: option.splits
      dest: eq_key_imp_eq_value)

lemmas spec_message_length_simps =
  spec_message_length_eq spec_length_entries_def

text \<open>
  Every length the table holds lies between the shortest message (the header and one byte)
  and the longest one.
\<close>

lemma entry_bounds: "\<forall>e \<in> set spec_length_entries. 12 \<le> unat (snd e) \<and> unat (snd e) \<le> 50"
  by (simp add: spec_length_entries_def)

lemma spec_size_cases:
  obtains "spec_message_length c = 0" | "12 \<le> spec_size c" "spec_size c \<le> 50"
proof (cases "spec_message_length c = 0")
  case False
  then have "(c, spec_message_length c) \<in> set spec_length_entries"
    using spec_message_length_iff by blast
  then show ?thesis using entry_bounds that(2) by fastforce
qed (use that(1) in blast)

lemma spec_size_pos: "spec_message_length c \<noteq> 0 \<Longrightarrow> 0 < spec_size c"
  by (simp add: unat_gt_0)

end
