(* ===== verification/Messages.thy ===== *)
theory Messages
  imports Message_Table
begin

text \<open>
  \<open>include/itch/messages.hpp\<close>: the message structs and their decoders. A decoder asserts
  the length of the record and, for the three types with a side, that the side byte is \<open>B\<close>
  or \<open>S\<close>; then it reads its fields at fixed offsets. The theory \<open>Codec\<close> gives the value of
  each decoder on a record of the right length.
\<close>

section \<open>Field types\<close>

type_synonym price_ticks = u32
type_synonym stock = string
type_synonym mpid = string

text \<open>
  The enumeration \<open>Side\<close> is over \<open>char\<close>: a cast from a byte other than \<open>B\<close> and \<open>S\<close> gives
  a value with no enumerator.
\<close>

datatype side = Buy | Sell | UnnamedSide char

definition side_of_char :: "char \<Rightarrow> side" where
  "side_of_char c = (if c = CHR ''B'' then Buy else if c = CHR ''S'' then Sell else UnnamedSide c)"

definition is_valid_side :: "char \<Rightarrow> bool" where
  "is_valid_side value \<longleftrightarrow> value = CHR ''B'' \<or> value = CHR ''S''"

text \<open>The view up to the last character that is not a space.\<close>

definition trim :: "string \<Rightarrow> string" where
  "trim field = rev (dropWhile (\<lambda>c. c = CHR '' '') (rev field))"

section \<open>The header\<close>

record message_header =
  msg_type :: char
  stock_locate :: u16
  tracking_number :: u16
  timestamp_ns :: u64

definition decode_header :: "build \<Rightarrow> byte list \<Rightarrow> message_header run" where
  "decode_header b reader =
     bind_run (read_char b reader 0) (\<lambda>ty.
     bind_run (read_u16 b reader 1) (\<lambda>loc.
     bind_run (read_u16 b reader 3) (\<lambda>tracking.
     bind_run (read_u48 b reader 5) (\<lambda>ts.
       Inr \<lparr>msg_type = ty, stock_locate = loc, tracking_number = tracking,
            timestamp_ns = ts\<rparr>))))"

text \<open>\<open>assert(reader.size() == spec_message_length(type))\<close>.\<close>

definition assert_size :: "build \<Rightarrow> byte list \<Rightarrow> char \<Rightarrow> unit run" where
  "assert_size b reader ty =
     assert_run b (Inr (length reader = unat (spec_message_length ty)))"

text \<open>\<open>assert(is_valid_side(reader.read_char(19)))\<close>.\<close>

definition assert_side :: "build \<Rightarrow> byte list \<Rightarrow> unit run" where
  "assert_side b reader = assert_run b (map_run is_valid_side (read_char b reader 19))"

section \<open>Messages and decoders\<close>

record system_event =
  se_header :: message_header
  se_event_code :: char

definition decode_system_event :: "build \<Rightarrow> byte list \<Rightarrow> system_event run" where
  "decode_system_event b reader =
     bind_run (assert_size b reader CHR ''S'') (\<lambda>_.
     bind_run (decode_header b reader) (\<lambda>header'.
     bind_run (read_char b reader 11) (\<lambda>event_code'.
       Inr \<lparr>se_header = header', se_event_code = event_code'\<rparr>)))"

record add_order =
  ao_header :: message_header
  ao_order_reference :: u64
  ao_side :: side
  ao_shares :: u32
  ao_stock :: stock
  ao_price :: price_ticks

definition decode_add_order :: "build \<Rightarrow> byte list \<Rightarrow> add_order run" where
  "decode_add_order b reader =
     bind_run (assert_size b reader CHR ''A'') (\<lambda>_.
     bind_run (assert_side b reader) (\<lambda>_.
     bind_run (decode_header b reader) (\<lambda>header'.
     bind_run (read_u64 b reader 11) (\<lambda>order_reference'.
     bind_run (map_run side_of_char (read_char b reader 19)) (\<lambda>side'.
     bind_run (read_u32 b reader 20) (\<lambda>shares'.
     bind_run (read_alpha 8 b reader 24) (\<lambda>stock'.
     bind_run (read_u32 b reader 32) (\<lambda>price'.
       Inr \<lparr>ao_header = header', ao_order_reference = order_reference', ao_side = side',
            ao_shares = shares', ao_stock = stock', ao_price = price'\<rparr>))))))))"

record add_order_with_mpid =
  am_order :: add_order
  am_attribution :: mpid

definition decode_add_order_with_mpid :: "build \<Rightarrow> byte list \<Rightarrow> add_order_with_mpid run" where
  "decode_add_order_with_mpid b reader =
     bind_run (assert_size b reader CHR ''F'') (\<lambda>_.
     bind_run (assert_side b reader) (\<lambda>_.
     bind_run (decode_header b reader) (\<lambda>header'.
     bind_run (read_u64 b reader 11) (\<lambda>order_reference'.
     bind_run (map_run side_of_char (read_char b reader 19)) (\<lambda>side'.
     bind_run (read_u32 b reader 20) (\<lambda>shares'.
     bind_run (read_alpha 8 b reader 24) (\<lambda>stock'.
     bind_run (read_u32 b reader 32) (\<lambda>price'.
     bind_run (Inr \<lparr>ao_header = header', ao_order_reference = order_reference',
            ao_side = side', ao_shares = shares', ao_stock = stock',
            ao_price = price'\<rparr>) (\<lambda>order'.
     bind_run (read_alpha 4 b reader 36) (\<lambda>attribution'.
       Inr \<lparr>am_order = order', am_attribution = attribution'\<rparr>))))))))))"

record order_executed =
  oe_header :: message_header
  oe_order_reference :: u64
  oe_executed_shares :: u32
  oe_match_number :: u64

definition decode_order_executed :: "build \<Rightarrow> byte list \<Rightarrow> order_executed run" where
  "decode_order_executed b reader =
     bind_run (assert_size b reader CHR ''E'') (\<lambda>_.
     bind_run (decode_header b reader) (\<lambda>header'.
     bind_run (read_u64 b reader 11) (\<lambda>order_reference'.
     bind_run (read_u32 b reader 19) (\<lambda>executed_shares'.
     bind_run (read_u64 b reader 23) (\<lambda>match_number'.
       Inr \<lparr>oe_header = header', oe_order_reference = order_reference',
            oe_executed_shares = executed_shares', oe_match_number = match_number'\<rparr>)))))"

record order_executed_with_price =
  op_executed :: order_executed
  op_printable :: char
  op_execution_price :: price_ticks

definition decode_order_executed_with_price :: "build \<Rightarrow> byte list \<Rightarrow> order_executed_with_price run" where
  "decode_order_executed_with_price b reader =
     bind_run (assert_size b reader CHR ''C'') (\<lambda>_.
     bind_run (decode_header b reader) (\<lambda>header'.
     bind_run (read_u64 b reader 11) (\<lambda>order_reference'.
     bind_run (read_u32 b reader 19) (\<lambda>executed_shares'.
     bind_run (read_u64 b reader 23) (\<lambda>match_number'.
     bind_run (Inr \<lparr>oe_header = header', oe_order_reference = order_reference',
            oe_executed_shares = executed_shares',
            oe_match_number = match_number'\<rparr>) (\<lambda>executed'.
     bind_run (read_char b reader 31) (\<lambda>printable'.
     bind_run (read_u32 b reader 32) (\<lambda>execution_price'.
       Inr \<lparr>op_executed = executed', op_printable = printable',
            op_execution_price = execution_price'\<rparr>))))))))"

record order_cancel =
  oc_header :: message_header
  oc_order_reference :: u64
  oc_cancelled_shares :: u32

definition decode_order_cancel :: "build \<Rightarrow> byte list \<Rightarrow> order_cancel run" where
  "decode_order_cancel b reader =
     bind_run (assert_size b reader CHR ''X'') (\<lambda>_.
     bind_run (decode_header b reader) (\<lambda>header'.
     bind_run (read_u64 b reader 11) (\<lambda>order_reference'.
     bind_run (read_u32 b reader 19) (\<lambda>cancelled_shares'.
       Inr \<lparr>oc_header = header', oc_order_reference = order_reference',
            oc_cancelled_shares = cancelled_shares'\<rparr>))))"

record order_delete =
  od_header :: message_header
  od_order_reference :: u64

definition decode_order_delete :: "build \<Rightarrow> byte list \<Rightarrow> order_delete run" where
  "decode_order_delete b reader =
     bind_run (assert_size b reader CHR ''D'') (\<lambda>_.
     bind_run (decode_header b reader) (\<lambda>header'.
     bind_run (read_u64 b reader 11) (\<lambda>order_reference'.
       Inr \<lparr>od_header = header', od_order_reference = order_reference'\<rparr>)))"

record order_replace =
  ore_header :: message_header
  ore_original_order_reference :: u64
  ore_new_order_reference :: u64
  ore_shares :: u32
  ore_price :: price_ticks

definition decode_order_replace :: "build \<Rightarrow> byte list \<Rightarrow> order_replace run" where
  "decode_order_replace b reader =
     bind_run (assert_size b reader CHR ''U'') (\<lambda>_.
     bind_run (decode_header b reader) (\<lambda>header'.
     bind_run (read_u64 b reader 11) (\<lambda>original_order_reference'.
     bind_run (read_u64 b reader 19) (\<lambda>new_order_reference'.
     bind_run (read_u32 b reader 27) (\<lambda>shares'.
     bind_run (read_u32 b reader 31) (\<lambda>price'.
       Inr \<lparr>ore_header = header',
            ore_original_order_reference = original_order_reference',
            ore_new_order_reference = new_order_reference', ore_shares = shares',
            ore_price = price'\<rparr>))))))"

record trade_non_cross =
  tr_header :: message_header
  tr_order_reference :: u64
  tr_side :: side
  tr_shares :: u32
  tr_stock :: stock
  tr_price :: price_ticks
  tr_match_number :: u64

definition decode_trade_non_cross :: "build \<Rightarrow> byte list \<Rightarrow> trade_non_cross run" where
  "decode_trade_non_cross b reader =
     bind_run (assert_size b reader CHR ''P'') (\<lambda>_.
     bind_run (assert_side b reader) (\<lambda>_.
     bind_run (decode_header b reader) (\<lambda>header'.
     bind_run (read_u64 b reader 11) (\<lambda>order_reference'.
     bind_run (map_run side_of_char (read_char b reader 19)) (\<lambda>side'.
     bind_run (read_u32 b reader 20) (\<lambda>shares'.
     bind_run (read_alpha 8 b reader 24) (\<lambda>stock'.
     bind_run (read_u32 b reader 32) (\<lambda>price'.
     bind_run (read_u64 b reader 36) (\<lambda>match_number'.
       Inr \<lparr>tr_header = header', tr_order_reference = order_reference', tr_side = side',
            tr_shares = shares', tr_stock = stock', tr_price = price',
            tr_match_number = match_number'\<rparr>)))))))))"

record stock_directory =
  sd_header :: message_header
  sd_stock :: stock
  sd_market_category :: char
  sd_financial_status_indicator :: char
  sd_round_lot_size :: u32
  sd_round_lots_only :: char
  sd_issue_classification :: char
  sd_issue_sub_type :: string
  sd_authenticity :: char
  sd_short_sale_threshold_indicator :: char
  sd_ipo_flag :: char
  sd_luld_reference_price_tier :: char
  sd_etp_flag :: char
  sd_etp_leverage_factor :: u32
  sd_inverse_indicator :: char

definition decode_stock_directory :: "build \<Rightarrow> byte list \<Rightarrow> stock_directory run" where
  "decode_stock_directory b reader =
     bind_run (assert_size b reader CHR ''R'') (\<lambda>_.
     bind_run (decode_header b reader) (\<lambda>header'.
     bind_run (read_alpha 8 b reader 11) (\<lambda>stock'.
     bind_run (read_char b reader 19) (\<lambda>market_category'.
     bind_run (read_char b reader 20) (\<lambda>financial_status_indicator'.
     bind_run (read_u32 b reader 21) (\<lambda>round_lot_size'.
     bind_run (read_char b reader 25) (\<lambda>round_lots_only'.
     bind_run (read_char b reader 26) (\<lambda>issue_classification'.
     bind_run (read_alpha 2 b reader 27) (\<lambda>issue_sub_type'.
     bind_run (read_char b reader 29) (\<lambda>authenticity'.
     bind_run (read_char b reader 30) (\<lambda>short_sale_threshold_indicator'.
     bind_run (read_char b reader 31) (\<lambda>ipo_flag'.
     bind_run (read_char b reader 32) (\<lambda>luld_reference_price_tier'.
     bind_run (read_char b reader 33) (\<lambda>etp_flag'.
     bind_run (read_u32 b reader 34) (\<lambda>etp_leverage_factor'.
     bind_run (read_char b reader 38) (\<lambda>inverse_indicator'.
       Inr \<lparr>sd_header = header', sd_stock = stock',
            sd_market_category = market_category',
            sd_financial_status_indicator = financial_status_indicator',
            sd_round_lot_size = round_lot_size', sd_round_lots_only = round_lots_only',
            sd_issue_classification = issue_classification',
            sd_issue_sub_type = issue_sub_type', sd_authenticity = authenticity',
            sd_short_sale_threshold_indicator = short_sale_threshold_indicator',
            sd_ipo_flag = ipo_flag', sd_luld_reference_price_tier = luld_reference_price_tier',
            sd_etp_flag = etp_flag', sd_etp_leverage_factor = etp_leverage_factor',
            sd_inverse_indicator = inverse_indicator'\<rparr>))))))))))))))))"

end
