(* ===== verification/Wire_Format.thy ===== *)
theory Wire_Format
  imports Messages
begin

text \<open>
  The wire format as the test fixtures build it (\<open>tests/fixtures.hpp\<close>): a field is emitted
  most significant byte first by explicit shifts, text is padded with spaces, and a framed
  message carries a two-byte length. These definitions share nothing with the reader, so the
  round trips with the decoders state the byte order and every field offset.
\<close>

unbundle bit_operations_syntax

section \<open>Building records\<close>

text \<open>\<open>u8((value >> (8 * i)) & 0xFF)\<close> for \<open>i\<close> from \<open>width - 1\<close> down to \<open>0\<close>.\<close>

definition big_endian :: "u64 \<Rightarrow> nat \<Rightarrow> byte list" where
  "big_endian value width =
     map (\<lambda>i. ucast (drop_bit (8 * i) value AND 0xFF)) (rev [0..<width])"

definition alpha :: "string \<Rightarrow> nat \<Rightarrow> byte list" where
  "alpha txt width =
     map (\<lambda>i. byte_of_char (if i < length txt then txt ! i else CHR '' '')) [0..<width]"

definition framed :: "byte list \<Rightarrow> byte list" where
  "framed bytes =
     (let len = (of_nat (length bytes) :: u16)
      in [ucast (drop_bit 8 len AND 0xFF), ucast (len AND 0xFF)] @ bytes)"

definition header :: "message_header \<Rightarrow> byte list" where
  "header h =
     byte_of_char (msg_type h) # big_endian (ucast (stock_locate h)) 2 @
     big_endian (ucast (tracking_number h)) 2 @ big_endian (timestamp_ns h) 6"

lemma length_big_endian [simp]: "length (big_endian v n) = n"
  by (simp add: big_endian_def)

lemma length_alpha [simp]: "length (alpha t n) = n"
  by (simp add: alpha_def)

lemma length_header [simp]: "length (header h) = 11"
  by (simp add: header_def)

lemma length_framed [simp]: "length (framed r) = length r + 2"
  by (simp add: framed_def Let_def)

section \<open>A field read back is the field written\<close>

lemma byte_and_mask: "ucast (v AND 0xFF :: 'a::len word) = (ucast v :: byte)"
proof -
  have "(0xFF :: 'a word) = mask 8" by (simp add: mask_eq_exp_minus_1)
  then have "v AND 0xFF = take_bit 8 v" by (simp add: take_bit_eq_mask)
  then show ?thesis by (auto intro: bit_word_eqI simp: bit_ucast_iff bit_take_bit_iff)
qed

lemma big_endian_le_bytes: "big_endian v n = rev (le_bytes n v)"
proof -
  have "le_bytes n v = map (\<lambda>i. ucast (drop_bit (8 * i) v)) [0..<n]"
  proof (induction n arbitrary: v)
    case 0
    then show ?case by simp
  next
    case (Suc n)
    have "map (\<lambda>i. ucast (drop_bit (8 * i) v)) [0..<Suc n] =
          ucast v # map (\<lambda>i. ucast (drop_bit (8 * Suc i) v) :: byte) [0..<n]"
      by (simp add: map_upt_Suc del: upt_Suc)
    then show ?case using Suc.IH [of "drop_bit 8 v"] by (simp add: ac_simps)
  qed
  then show ?thesis by (simp add: big_endian_def byte_and_mask rev_map)
qed

lemma le_word_append_zeros: "le_word (xs @ replicate k 0) = le_word xs"
proof (induction xs)
  case Nil
  show ?case by (induction k) simp_all
qed simp

lemma le_bytes_ucast:
  assumes "8 * n \<le> LENGTH('a)" and "8 * n \<le> LENGTH('b)"
  shows "le_bytes n (ucast (w :: 'a::len word) :: 'b::len word) = le_bytes n w"
proof (rule nth_equalityI)
  fix i assume "i < length (le_bytes n (ucast w :: 'b word))"
  then have i: "i < n" by simp
  show "le_bytes n (ucast w :: 'b word) ! i = le_bytes n w ! i"
  proof (rule bit_word_eqI)
    fix j assume "j < LENGTH(8)"
    then have "j < 8" by simp
    then show "bit (le_bytes n (ucast w :: 'b word) ! i) j = bit (le_bytes n w ! i) j"
      using i assms by (simp add: le_bytes_nth_bit bit_ucast_iff)
  qed
qed simp

lemma load_big_endian_field:
  fixes v :: "'a::len word"
  assumes "LENGTH('a) = 8 * n" and "LENGTH('a) \<le> 64"
  shows "load_big_endian (big_endian (ucast v) n) = v"
proof -
  have "le_bytes n (ucast v :: u64) = le_bytes n v"
    by (rule le_bytes_ucast) (use assms in simp_all)
  then have "load_big_endian (big_endian (ucast v) n) = (le_word (le_bytes n v) :: 'a word)"
    using assms by (simp add: load_big_endian_rev big_endian_le_bytes)
  also have "\<dots> = v"
    using assms by (simp add: le_word_le_bytes take_bit_word_eq_self)
  finally show ?thesis .
qed

lemma load_big_endian_u64: "load_big_endian (big_endian v 8) = (v :: u64)"
  using load_big_endian_field [of 8 v] by simp

lemma load_big_endian_u32: "load_big_endian (big_endian (ucast v) 4) = (v :: u32)"
  by (rule load_big_endian_field) simp_all

lemma load_big_endian_u16: "load_big_endian (big_endian (ucast v) 2) = (v :: u16)"
  by (rule load_big_endian_field) simp_all

lemma load_widened:
  "length r = 6 \<Longrightarrow> load_big_endian (0 # 0 # r) = (le_word (rev r) :: u64)"
  using le_word_append_zeros [of "rev r" 2, where ?'a = 64]
  by (simp add: load_big_endian_rev numeral_2_eq_2)

lemma load_big_endian_u48:
  "take_bit 48 v = v \<Longrightarrow> load_big_endian (0 # 0 # big_endian v 6) = (v :: u64)"
  by (simp add: load_widened big_endian_le_bytes le_word_le_bytes)

lemma load_u48_take_bit:
  "length r = 6 \<Longrightarrow>
     take_bit 48 (load_big_endian (0 # 0 # r) :: u64) = load_big_endian (0 # 0 # r)"
  by (rule bit_word_eqI)
    (auto simp: load_widened bit_take_bit_iff bit_le_word div_less_iff_less_mult)

lemma big_endian_load:
  fixes r :: "byte list"
  assumes "length r = n" and "LENGTH('a) = 8 * n" and "LENGTH('a) \<le> 64"
  shows "big_endian (ucast (load_big_endian r :: 'a::len word)) n = r"
  using assms
  by (simp add: big_endian_le_bytes load_big_endian_rev le_bytes_ucast le_bytes_le_word)

lemma big_endian_load_u64: "length r = 8 \<Longrightarrow> big_endian (load_big_endian r) 8 = r"
  using big_endian_load [of r 8, where ?'a = 64] by simp

lemma big_endian_load_u32:
  "length r = 4 \<Longrightarrow> big_endian (ucast (load_big_endian r :: u32)) 4 = r"
  by (rule big_endian_load) simp_all

lemma big_endian_load_u16:
  "length r = 2 \<Longrightarrow> big_endian (ucast (load_big_endian r :: u16)) 2 = r"
  by (rule big_endian_load) simp_all

lemma big_endian_load_u48:
  "length r = 6 \<Longrightarrow> big_endian (load_big_endian (0 # 0 # r)) 6 = r"
  by (simp add: load_widened big_endian_le_bytes le_bytes_le_word)

lemma alpha_chars: "length r = n \<Longrightarrow> alpha (map char_of_byte r) n = r"
  by (rule nth_equalityI) (simp_all add: alpha_def)

lemma chars_alpha: "length t = n \<Longrightarrow> map char_of_byte (alpha t n) = t"
  by (rule nth_equalityI) (simp_all add: alpha_def)

end
