(* ===== verification/Framer.thy ===== *)
theory Framer
  imports Wire_Format
begin

text \<open>
  \<open>include/itch/framer.hpp\<close> and \<open>src/framer.cpp\<close>: the BinaryFILE framer. The callback is a
  state transformer that may fault; the loop keeps the byte offset of the code.
  Offsets and counts (\<open>size_t\<close>) are natural numbers: every one of them is at most the size
  of the buffer, which is a \<open>size_t\<close> itself.

  \<open>split_frames\<close> is what the loop means for the bytes alone: the records it hands out and
  the error it stops at. The main lemma reduces \<open>frame_all\<close> to it.
\<close>

unbundle bit_operations_syntax

datatype frame_error =
  TruncatedPrefix | ZeroLength | TruncatedRecord | UnknownType | LengthMismatch

fun describe :: "frame_error \<Rightarrow> string" where
  "describe TruncatedPrefix = ''truncated length prefix''"
| "describe ZeroLength = ''zero-length record''"
| "describe TruncatedRecord = ''record runs past end of file''"
| "describe UnknownType = ''message type not defined by ITCH 5.0''"
| "describe LengthMismatch = ''declared length disagrees with specification''"

instantiation frame_error :: enum
begin

definition enum_frame_error :: "frame_error list" where
  "enum_frame_error = [TruncatedPrefix, ZeroLength, TruncatedRecord, UnknownType, LengthMismatch]"

definition enum_all_frame_error :: "(frame_error \<Rightarrow> bool) \<Rightarrow> bool" where
  "enum_all_frame_error P \<longleftrightarrow> list_all P enum_class.enum"

definition enum_ex_frame_error :: "(frame_error \<Rightarrow> bool) \<Rightarrow> bool" where
  "enum_ex_frame_error P \<longleftrightarrow> list_ex P enum_class.enum"

instance
proof
  show all: "(UNIV :: frame_error set) = set enum_class.enum"
    by (auto simp: enum_frame_error_def intro: frame_error.exhaust)
  show "distinct (enum_class.enum :: frame_error list)"
    by (simp add: enum_frame_error_def)
  show "enum_class.enum_all P = Ball UNIV P" for P :: "frame_error \<Rightarrow> bool"
    by (simp add: enum_all_frame_error_def list_all_iff flip: all)
  show "enum_class.enum_ex P = Bex UNIV P" for P :: "frame_error \<Rightarrow> bool"
    by (simp add: enum_ex_frame_error_def list_ex_iff flip: all)
qed

end

record frame_outcome =
  messages :: nat
  bytes_consumed :: nat
  frame_error :: "frame_error option"
  error_offset :: nat
  error_type :: char

definition initial_outcome :: frame_outcome where
  "initial_outcome =
     \<lparr>messages = 0, bytes_consumed = 0, frame_error = None, error_offset = 0,
      error_type = CHR 0x00\<rparr>"

definition complete :: "frame_outcome \<Rightarrow> bool" where
  "complete outcome \<longleftrightarrow> frame_error outcome = None"

type_synonym 's callback = "char \<Rightarrow> byte list \<Rightarrow> 's \<Rightarrow> 's run"

text \<open>The two bytes of the length prefix at an offset, combined as the code combines them.\<close>

definition declared_length :: "byte list \<Rightarrow> nat \<Rightarrow> u16" where
  "declared_length file offset =
     ucast ((push_bit 8 (ucast (file ! offset)) :: u32) OR ucast (file ! (offset + 1)))"

function frame_loop ::
  "byte list \<Rightarrow> 's callback \<Rightarrow> nat \<Rightarrow> frame_outcome \<Rightarrow> 's \<Rightarrow> (frame_outcome \<times> 's) run" where
  "frame_loop file on_message offset outcome s =
     (if offset < length file then
        if length file - offset < 2 then
          Inr (outcome\<lparr>frame_error := Some TruncatedPrefix, error_offset := offset\<rparr>, s)
        else
          let declared = declared_length file offset in
          if declared = 0 then
            Inr (outcome\<lparr>frame_error := Some ZeroLength, error_offset := offset\<rparr>, s)
          else if length file - offset - 2 < unat declared then
            Inr (outcome\<lparr>frame_error := Some TruncatedRecord, error_offset := offset\<rparr>, s)
          else
            let record = subspan file (offset + 2) (unat declared);
                type = char_of_byte (record ! 0);
                expected = spec_message_length type in
            if expected = 0 then
              Inr (outcome\<lparr>frame_error := Some UnknownType, error_offset := offset,
                    error_type := type\<rparr>, s)
            else if expected \<noteq> declared then
              Inr (outcome\<lparr>frame_error := Some LengthMismatch, error_offset := offset,
                    error_type := type\<rparr>, s)
            else
              bind_run (on_message type record s) (\<lambda>s'.
                frame_loop file on_message (offset + (2 + unat declared))
                  (outcome\<lparr>messages := messages outcome + 1,
                    bytes_consumed := offset + (2 + unat declared)\<rparr>) s')
      else Inr (outcome, s))"
  by pat_completeness auto
termination
  by (relation "measure (\<lambda>(file, _, offset, _, _). length file - offset)") auto

declare frame_loop.simps [simp del]

definition frame_all ::
  "byte list \<Rightarrow> 's callback \<Rightarrow> 's \<Rightarrow> (frame_outcome \<times> 's) run" where
  "frame_all file on_message s = frame_loop file on_message 0 initial_outcome s"

section \<open>Framing the bytes alone\<close>

text \<open>A record the specification allows: its length is the one its type byte demands.\<close>

definition record_type :: "byte list \<Rightarrow> char" where
  "record_type r = char_of_byte (hd r)"

definition valid_record :: "byte list \<Rightarrow> bool" where
  "valid_record r \<longleftrightarrow> r \<noteq> [] \<and> spec_size (record_type r) = length r"

text \<open>What is wrong at the head of the remaining bytes, if anything is.\<close>

definition head_fault :: "byte list \<Rightarrow> (frame_error \<times> char) option" where
  "head_fault rest =
     (if length rest < 2 then Some (TruncatedPrefix, CHR 0x00)
      else let n = be_value (take 2 rest) in
      if n = 0 then Some (ZeroLength, CHR 0x00)
      else if length rest < 2 + n then Some (TruncatedRecord, CHR 0x00)
      else let c = char_of_byte (rest ! 2) in
      if spec_message_length c = 0 then Some (UnknownType, c)
      else if spec_size c \<noteq> n then Some (LengthMismatch, c)
      else None)"

function split_frames :: "byte list \<Rightarrow> byte list list \<times> byte list" where
  "split_frames rest =
     (if rest = [] \<or> head_fault rest \<noteq> None then ([], rest)
      else let n = be_value (take 2 rest); (rs, tail) = split_frames (drop (2 + n) rest)
           in (subspan rest 2 n # rs, tail))"
  by pat_completeness auto
termination
  by (relation "measure length") auto

declare split_frames.simps [simp del]

text \<open>The outcome that belongs to a split of the buffer.\<close>

definition split_outcome :: "byte list \<Rightarrow> byte list list \<times> byte list \<Rightarrow> frame_outcome" where
  "split_outcome file split =
     (let (rs, rest) = split; consumed = length file - length rest in
      case (if rest = [] then None else head_fault rest) of
        None \<Rightarrow> \<lparr>messages = length rs, bytes_consumed = consumed, frame_error = None,
                 error_offset = 0, error_type = CHR 0x00\<rparr>
      | Some (e, c) \<Rightarrow> \<lparr>messages = length rs, bytes_consumed = consumed, frame_error = Some e,
                 error_offset = consumed, error_type = c\<rparr>)"


lemma declared_length_load:
  assumes "offset + 2 \<le> length file"
  shows "declared_length file offset = load_big_endian (take 2 (drop offset file))"
proof -
  have "take 2 (drop offset file) = [file ! offset, file ! (offset + 1)]"
    using assms by (simp add: numeral_2_eq_2 take_Suc_conv_app_nth)
  then show ?thesis
    by (simp add: load_big_endian_rev declared_length_def)
      (rule bit_word_eqI, auto simp: bit_simps)
qed

lemma unat_declared_length:
  "offset + 2 \<le> length file \<Longrightarrow>
     unat (declared_length file offset) = be_value (take 2 (drop offset file))"
  by (simp add: declared_length_load unat_load_big_endian)

text \<open>One turn of the loop, in terms of the bytes that remain.\<close>

lemma frame_loop_step:
  assumes "offset < length file"
  shows "frame_loop file cb offset out s =
    (let rest = drop offset file; n = be_value (take 2 rest) in
     case head_fault rest of
       Some (e, c) \<Rightarrow>
         Inr (if e = UnknownType \<or> e = LengthMismatch
              then out\<lparr>frame_error := Some e, error_offset := offset, error_type := c\<rparr>
              else out\<lparr>frame_error := Some e, error_offset := offset\<rparr>, s)
     | None \<Rightarrow>
         bind_run (cb (char_of_byte (subspan rest 2 n ! 0)) (subspan rest 2 n) s) (\<lambda>s'.
           frame_loop file cb (offset + (2 + n))
             (out\<lparr>messages := messages out + 1, bytes_consumed := offset + (2 + n)\<rparr>) s'))"
proof -
  have nz: "w = 0 \<longleftrightarrow> unat w = 0" for w :: u16 by (simp add: unat_eq_0)
  show ?thesis
  proof (cases "length file - offset < 2")
    case True
    then show ?thesis
      using assms by (subst frame_loop.simps) (simp add: head_fault_def Let_def)
  next
    case False
    then have unat: "unat (declared_length file offset) = be_value (take 2 (drop offset file))"
      by (simp add: unat_declared_length)
    show ?thesis
      using assms False
      by (subst frame_loop.simps) (simp add: unat head_fault_def Let_def nz
          subspan_def nth_append add.commute word_unat_eq_iff less_diff_conv2)
  qed
qed

lemma frame_loop_end: "length file \<le> offset \<Longrightarrow> frame_loop file cb offset out s = Inr (out, s)"
  by (subst frame_loop.simps) simp

text \<open>Splitting one frame off, and when there is nothing more to split.\<close>

lemma split_frames_stop: "rest = [] \<or> head_fault rest \<noteq> None \<Longrightarrow> split_frames rest = ([], rest)"
  by (subst split_frames.simps) auto

lemma split_frames_step:
  "rest \<noteq> [] \<Longrightarrow> head_fault rest = None \<Longrightarrow> n = be_value (take 2 rest) \<Longrightarrow>
     split_frames rest =
       (subspan rest 2 n # fst (split_frames (drop (2 + n) rest)),
        snd (split_frames (drop (2 + n) rest)))"
  by (subst split_frames.simps) (simp add: Let_def split: prod.split)

lemma head_fault_None:
  assumes "head_fault rest = None" and "n = be_value (take 2 rest)"
  shows "2 + n \<le> length rest" and "0 < n"
    and "valid_record (subspan rest 2 n)"
    and "char_of_byte (subspan rest 2 n ! 0) = record_type (subspan rest 2 n)"
  using assms
  by (auto simp: head_fault_def valid_record_def record_type_def subspan_def hd_conv_nth
      Let_def hd_drop_conv_nth split: if_splits)

text \<open>
  The induction behind every walk over frames: the buffer is empty, its head is at fault, or
  it starts with a frame and the walk goes on behind it.
\<close>

lemma frames_induct [case_names empty fault frame]:
  assumes "P []"
    and "\<And>rest e c. rest \<noteq> [] \<Longrightarrow> head_fault rest = Some (e, c) \<Longrightarrow> P rest"
    and "\<And>rest n. rest \<noteq> [] \<Longrightarrow> head_fault rest = None \<Longrightarrow> n = be_value (take 2 rest) \<Longrightarrow>
      P (drop (2 + n) rest) \<Longrightarrow> P rest"
  shows "P rest"
proof (induction rest rule: split_frames.induct)
  case (1 rest)
  consider "rest = []" | e c where "rest \<noteq> []" "head_fault rest = Some (e, c)"
    | "rest \<noteq> []" "head_fault rest = None"
    by (metis option.exhaust surj_pair)
  then show ?case
    by cases (use assms "1.IH" in \<open>auto\<close>)
qed

text \<open>Hand a list of records to the callback, in order.\<close>

definition deliver_all :: "'s callback \<Rightarrow> byte list list \<Rightarrow> 's \<Rightarrow> 's run" where
  "deliver_all cb = fold_run (\<lambda>r. cb (record_type r) r)"

text \<open>The loop where it stops, and over one frame.\<close>

lemma frame_loop_stop:
  assumes "drop offset file = [] \<or> head_fault (drop offset file) \<noteq> None" and "offset \<le> length file"
  shows "frame_loop file cb offset (initial_outcome\<lparr>messages := n, bytes_consumed := offset\<rparr>) s =
    Inr ((split_outcome file ([], drop offset file))\<lparr>messages := n\<rparr>, s)"
  using assms
  by (auto simp: split_outcome_def frame_loop_step frame_loop_end initial_outcome_def
      head_fault_def Let_def split: if_splits)

lemma frame_loop_frame:
  assumes "drop offset file \<noteq> []" and "head_fault (drop offset file) = None"
    and "k = be_value (take 2 (drop offset file))"
  shows "frame_loop file cb offset (initial_outcome\<lparr>messages := n, bytes_consumed := offset\<rparr>) s =
    (let r = subspan (drop offset file) 2 k in
     bind_run (cb (record_type r) r s)
       (frame_loop file cb (offset + (2 + k))
         (initial_outcome\<lparr>messages := Suc n, bytes_consumed := offset + (2 + k)\<rparr>)))"
  using assms(1) head_fault_None(4) [OF assms(2,3)]
  by (simp add: frame_loop_step assms(2) Let_def flip: assms(3))

lemma frame_loop_split:
  assumes "offset \<le> length file"
  shows "frame_loop file cb offset (initial_outcome\<lparr>messages := n, bytes_consumed := offset\<rparr>) s =
    map_run (\<lambda>s'. ((split_outcome file (split_frames (drop offset file)))
        \<lparr>messages := n + length (fst (split_frames (drop offset file)))\<rparr>, s'))
      (deliver_all cb (fst (split_frames (drop offset file))) s)"
  using assms
proof (induction "drop offset file" arbitrary: offset n s rule: frames_induct)
  case (frame k)
  let ?tl = "split_frames (drop (2 + k) (drop offset file))"
  note split = split_frames_step [OF frame(1-3)]
  have "offset + (2 + k) \<le> length file" and "drop (2 + k) (drop offset file) = drop (offset + (2 + k)) file"
    using head_fault_None(1) [OF frame(2,3)] frame(5) by (simp_all add: add.commute)
  note IH = frame(4) [OF this(2,1), folded this(2)]
  have "(split_outcome file (split_frames (drop offset file)))\<lparr>messages := m\<rparr> =
      (split_outcome file ?tl)\<lparr>messages := m\<rparr>" for m
    by (cases ?tl) (auto simp: split split_outcome_def Let_def split: option.split)
  then show ?case
    unfolding frame_loop_frame [OF frame(1-3)] Let_def IH
    by (simp add: split deliver_all_def map_run_bind)
qed (simp_all add: frame_loop_stop split_frames_stop deliver_all_def)

text \<open>The framer is the fold of the callback over the records of the split.\<close>

lemma frame_all_split:
  "frame_all file cb s =
     map_run (\<lambda>s'. (split_outcome file (split_frames file), s'))
       (deliver_all cb (fst (split_frames file)) s)"
proof -
  have "(split_outcome file sp)\<lparr>messages := length (fst sp)\<rparr> = split_outcome file sp" for sp
    by (auto simp: split_outcome_def Let_def split: prod.split option.split)
  then show ?thesis
    using frame_loop_split [where offset = 0 and n = 0, of "file" cb s]
    by (simp add: frame_all_def initial_outcome_def)
qed

section \<open>What a split is\<close>

lemma framed_big_endian: "framed r = big_endian (ucast (of_nat (length r) :: u16)) 2 @ r"
proof -
  have "big_endian v 2 = [ucast (drop_bit 8 v), ucast v]" for v
    by (simp add: big_endian_def byte_and_mask numeral_2_eq_2)
  moreover have "ucast (drop_bit 8 (ucast w :: u64)) = (ucast (drop_bit 8 w) :: byte)"
    "ucast (ucast w :: u64) = (ucast w :: byte)" for w :: u16
    by (auto intro!: bit_word_eqI simp: bit_ucast_iff bit_drop_bit_eq dest: bit_imp_le_length)
  ultimately show ?thesis by (simp add: framed_def Let_def byte_and_mask)
qed

lemma framed_subspan:
  assumes "head_fault rest = None" and n: "n = be_value (take 2 rest)"
  shows "framed (subspan rest 2 n) @ drop (2 + n) rest = rest"
proof -
  have len: "2 + n \<le> length rest" using assms by (rule head_fault_None)
  then have two: "length (take 2 rest) = 2" by simp
  define w where "w = (load_big_endian (take 2 rest) :: u16)"
  have "unat w = n" using two by (simp add: w_def n unat_load_big_endian)
  then have "of_nat n = w" by (metis of_nat_unat ucast_id)
  moreover have "big_endian (ucast w) 2 = take 2 rest"
    unfolding w_def using two by (rule big_endian_load_u16)
  ultimately have "framed (subspan rest 2 n) = take 2 rest @ subspan rest 2 n"
    using len by (simp add: framed_big_endian min_absorb1)
  moreover have "subspan rest 2 n @ drop (2 + n) rest = drop 2 rest"
    using append_take_drop_id [of n "drop 2 rest"] by (simp add: subspan_def)
  ultimately show ?thesis by simp
qed

lemma split_frames_sound:
  "(rs, tail) = split_frames file \<Longrightarrow>
     file = concat (map framed rs) @ tail \<and> list_all valid_record rs \<and>
     (tail = [] \<or> head_fault tail \<noteq> None)"
proof (induction "file" arbitrary: rs rule: frames_induct)
  case (frame rest n)
  note split = split_frames_step [OF frame(1-3)]
  then have "(fst (split_frames (drop (2 + n) rest)), tail) = split_frames (drop (2 + n) rest)"
    using frame(5) by simp
  from frame(4) [OF this] frame(5) show ?case
    using framed_subspan [OF frame(2,3)] head_fault_None(3) [OF frame(2,3)] by (simp add: split)
qed (simp_all add: split_frames_stop)

text \<open>The offset of what is left, before and after one more frame.\<close>

lemma split_frames_offset:
  assumes "head_fault session = None" and "n = be_value (take 2 session)" and "k' = k + (2 + n)"
  shows "k' + (length (drop (2 + n) session) - length (snd (split_frames (drop (2 + n) session)))) =
    k + (length session - length (snd (split_frames (drop (2 + n) session))))"
proof -
  let ?tl = "split_frames (drop (2 + n) session)"
  have "length (snd ?tl) \<le> length (drop (2 + n) session)"
    using split_frames_sound [of "fst ?tl" "snd ?tl" "drop (2 + n) session"]
    by (metis length_append le_add2 prod.collapse)
  then show ?thesis using head_fault_None(1) [OF assms(1,2)] assms(3) by simp
qed

lemma valid_record_framed:
  assumes "valid_record r"
  shows "head_fault (framed r @ xs) = None" and "be_value (take 2 (framed r @ xs)) = length r"
proof -
  have r: "r \<noteq> []" "spec_size (record_type r) = length r"
    using assms by (simp_all add: valid_record_def)
  then have small: "length r \<le> 50"
    using spec_size_cases [of "record_type r"] by fastforce
  let ?w = "of_nat (length r) :: u16"
  have "be_value (big_endian (ucast ?w) 2) = unat (load_big_endian (big_endian (ucast ?w) 2) :: u16)"
    by (simp add: unat_load_big_endian)
  also have "\<dots> = length r"
    using small by (simp add: load_big_endian_u16 unat_of_nat)
  finally show n: "be_value (take 2 (framed r @ xs)) = length r"
    by (simp add: framed_big_endian)
  have "char_of_byte ((framed r @ xs) ! 2) = record_type r"
    using r(1) by (simp add: framed_big_endian record_type_def nth_append hd_conv_nth)
  then show "head_fault (framed r @ xs) = None"
    using n r by (auto simp: head_fault_def Let_def)
qed

lemma split_frames_framed:
  assumes "valid_record r"
  shows "split_frames (framed r @ xs) = (r # fst (split_frames xs), snd (split_frames xs))"
proof -
  note head = valid_record_framed [OF assms, of xs]
  have "framed r @ xs \<noteq> []" by (simp add: framed_def Let_def)
  then have "split_frames (framed r @ xs) =
     (subspan (framed r @ xs) 2 (length r) # fst (split_frames (drop (2 + length r) (framed r @ xs))),
      snd (split_frames (drop (2 + length r) (framed r @ xs))))"
    by (rule split_frames_step) (simp_all only: head)
  then show ?thesis
    by (simp add: framed_big_endian subspan_skip subspan_here)
qed

lemma split_frames_complete:
  "list_all valid_record rs \<Longrightarrow>
     split_frames (concat (map framed rs) @ xs) =
       (rs @ fst (split_frames xs), snd (split_frames xs))"
  by (induction rs) (simp_all add: split_frames_framed)

section \<open>What the callback sees\<close>

text \<open>The callback that only keeps a log of its calls.\<close>

definition log_record :: "(char \<times> byte list) list callback" where
  "log_record ty record seen = Inr (seen @ [(ty, record)])"

lemma deliver_all_log:
  "deliver_all log_record rs seen = Inr (seen @ map (\<lambda>r. (record_type r, r)) rs)"
  by (induction rs arbitrary: seen) (simp_all add: deliver_all_def log_record_def)

lemma split_frames_unique:
  assumes "list_all valid_record rs" and "rest = [] \<or> head_fault rest \<noteq> None"
  shows "split_frames (concat (map framed rs) @ rest) = (rs, rest)"
  using split_frames_complete [OF assms(1), of rest] split_frames_stop [OF assms(2)] by simp

end
