(* ===== verification/Parser.thy ===== *)
theory Parser
  imports Framer
begin

text \<open>
  \<open>include/itch/parser.hpp\<close>: the handler interface, the dispatch of one record and the
  parse of a whole buffer. A handler is a record of state transformers, one per overload of
  \<open>on\<close> and one for \<open>on_other\<close>; the \<open>MessageHandler\<close> concept asks for exactly these.

  A decoded message is also a value (\<open>message\<close>), so that dispatching is decoding followed
  by delivery. The theory \<open>Session\<close> shows that parsing a buffer is delivering the messages
  of its records in order, and states the contracts between the parser and its handlers.
\<close>

section \<open>Handlers and dispatch\<close>

record 's handler =
  on_system_event :: "system_event \<Rightarrow> 's \<Rightarrow> 's run"
  on_add_order :: "add_order \<Rightarrow> 's \<Rightarrow> 's run"
  on_add_order_with_mpid :: "add_order_with_mpid \<Rightarrow> 's \<Rightarrow> 's run"
  on_order_executed :: "order_executed \<Rightarrow> 's \<Rightarrow> 's run"
  on_order_executed_with_price :: "order_executed_with_price \<Rightarrow> 's \<Rightarrow> 's run"
  on_order_cancel :: "order_cancel \<Rightarrow> 's \<Rightarrow> 's run"
  on_order_delete :: "order_delete \<Rightarrow> 's \<Rightarrow> 's run"
  on_order_replace :: "order_replace \<Rightarrow> 's \<Rightarrow> 's run"
  on_trade_non_cross :: "trade_non_cross \<Rightarrow> 's \<Rightarrow> 's run"
  on_stock_directory :: "stock_directory \<Rightarrow> 's \<Rightarrow> 's run"
  on_other :: "char \<Rightarrow> byte list \<Rightarrow> 's \<Rightarrow> 's run"

definition dispatch_record :: "build \<Rightarrow> char \<Rightarrow> byte list \<Rightarrow> 's handler \<Rightarrow> 's \<Rightarrow> 's run" where
  "dispatch_record b ty record h s =
     (if ty = CHR ''A'' then bind_run (decode_add_order b record) (\<lambda>m. on_add_order h m s)
      else if ty = CHR ''D'' then bind_run (decode_order_delete b record) (\<lambda>m. on_order_delete h m s)
      else if ty = CHR ''E'' then bind_run (decode_order_executed b record) (\<lambda>m. on_order_executed h m s)
      else if ty = CHR ''X'' then bind_run (decode_order_cancel b record) (\<lambda>m. on_order_cancel h m s)
      else if ty = CHR ''U'' then bind_run (decode_order_replace b record) (\<lambda>m. on_order_replace h m s)
      else if ty = CHR ''F'' then bind_run (decode_add_order_with_mpid b record) (\<lambda>m. on_add_order_with_mpid h m s)
      else if ty = CHR ''C'' then bind_run (decode_order_executed_with_price b record) (\<lambda>m. on_order_executed_with_price h m s)
      else if ty = CHR ''P'' then bind_run (decode_trade_non_cross b record) (\<lambda>m. on_trade_non_cross h m s)
      else if ty = CHR ''S'' then bind_run (decode_system_event b record) (\<lambda>m. on_system_event h m s)
      else if ty = CHR ''R'' then bind_run (decode_stock_directory b record) (\<lambda>m. on_stock_directory h m s)
      else on_other h ty record s)"

definition parse_all ::
  "build \<Rightarrow> byte list \<Rightarrow> 's handler \<Rightarrow> 's \<Rightarrow> (frame_outcome \<times> 's) run" where
  "parse_all b file h s = frame_all file (\<lambda>ty record. dispatch_record b ty record h) s"

section \<open>Messages as values\<close>

datatype message =
    SystemEvent system_event
  | AddOrder add_order
  | AddOrderWithMpid add_order_with_mpid
  | OrderExecuted order_executed
  | OrderExecutedWithPrice order_executed_with_price
  | OrderCancel order_cancel
  | OrderDelete order_delete
  | OrderReplace order_replace
  | TradeNonCross trade_non_cross
  | StockDirectory stock_directory
  | Other char "byte list"

fun deliver :: "'s handler \<Rightarrow> message \<Rightarrow> 's \<Rightarrow> 's run" where
  "deliver h (SystemEvent m) = on_system_event h m"
| "deliver h (AddOrder m) = on_add_order h m"
| "deliver h (AddOrderWithMpid m) = on_add_order_with_mpid h m"
| "deliver h (OrderExecuted m) = on_order_executed h m"
| "deliver h (OrderExecutedWithPrice m) = on_order_executed_with_price h m"
| "deliver h (OrderCancel m) = on_order_cancel h m"
| "deliver h (OrderDelete m) = on_order_delete h m"
| "deliver h (OrderReplace m) = on_order_replace h m"
| "deliver h (TradeNonCross m) = on_trade_non_cross h m"
| "deliver h (StockDirectory m) = on_stock_directory h m"
| "deliver h (Other ty record) = on_other h ty record"

definition decode_message :: "build \<Rightarrow> char \<Rightarrow> byte list \<Rightarrow> message run" where
  "decode_message b ty record =
     (if ty = CHR ''A'' then map_run AddOrder (decode_add_order b record)
      else if ty = CHR ''D'' then map_run OrderDelete (decode_order_delete b record)
      else if ty = CHR ''E'' then map_run OrderExecuted (decode_order_executed b record)
      else if ty = CHR ''X'' then map_run OrderCancel (decode_order_cancel b record)
      else if ty = CHR ''U'' then map_run OrderReplace (decode_order_replace b record)
      else if ty = CHR ''F'' then map_run AddOrderWithMpid (decode_add_order_with_mpid b record)
      else if ty = CHR ''C'' then map_run OrderExecutedWithPrice (decode_order_executed_with_price b record)
      else if ty = CHR ''P'' then map_run TradeNonCross (decode_trade_non_cross b record)
      else if ty = CHR ''S'' then map_run SystemEvent (decode_system_event b record)
      else if ty = CHR ''R'' then map_run StockDirectory (decode_stock_directory b record)
      else Inr (Other ty record))"

lemma dispatch_record_deliver:
  "dispatch_record b ty record h s =
     bind_run (decode_message b ty record) (\<lambda>m. deliver h m s)"
  by (simp only: dispatch_record_def decode_message_def bind_run_if bind_map_run
      bind_run_simps deliver.simps)

end
