(* ===== verification/Codec.thy ===== *)
theory Codec
  imports Parser
begin

text \<open>
  Decoding as a function of the bytes, and the encoders that invert it. For a record of the
  length its type demands, every decoder returns the fields at the specified offsets; only
  the side assertion of a debug build can still fail. The encoders concatenate the fields
  with the fixtures' builder; decoding and encoding are inverse in both directions.
\<close>

section \<open>The fields of a record\<close>

definition header_at :: "byte list \<Rightarrow> message_header" where
  "header_at r =
     \<lparr>msg_type = char_of_byte (r ! 0), stock_locate = load_big_endian (subspan r 1 2),
      tracking_number = load_big_endian (subspan r 3 2),
      timestamp_ns = load_big_endian (0 # 0 # subspan r 5 6)\<rparr>"

lemma decode_header_at [run_simps]:
  "kHeaderLength \<le> length r \<Longrightarrow> decode_header b r = Inr (header_at r)"
  by (simp add: decode_header_def header_at_def run_simps kHeaderLength_def numeral_2_eq_2)

definition side_valid_at :: "byte list \<Rightarrow> bool" where
  "side_valid_at r \<longleftrightarrow> is_valid_side (char_of_byte (r ! 19))"

lemma assert_side_at:
  "19 < length r \<Longrightarrow>
     assert_side b r = (if b = Debug \<and> \<not> side_valid_at r then Inl AssertFailed else Inr ())"
  by (cases b) (simp_all add: assert_side_def side_valid_at_def run_simps assert_run_def)

lemma assert_size_at: "length r = spec_size ty \<Longrightarrow> assert_size b r ty = Inr ()"
  by (simp add: assert_size_def)

definition system_event_at :: "byte list \<Rightarrow> system_event" where
  "system_event_at r =
     \<lparr>se_header = header_at r,
      se_event_code = char_of_byte (r ! 11)\<rparr>"

definition add_order_at :: "byte list \<Rightarrow> add_order" where
  "add_order_at r =
     \<lparr>ao_header = header_at r,
      ao_order_reference = load_big_endian (subspan r 11 8),
      ao_side = side_of_char (char_of_byte (r ! 19)),
      ao_shares = load_big_endian (subspan r 20 4),
      ao_stock = map char_of_byte (subspan r 24 8),
      ao_price = load_big_endian (subspan r 32 4)\<rparr>"

definition add_order_with_mpid_at :: "byte list \<Rightarrow> add_order_with_mpid" where
  "add_order_with_mpid_at r =
     \<lparr>am_order = add_order_at r, am_attribution = map char_of_byte (subspan r 36 4)\<rparr>"

definition order_executed_at :: "byte list \<Rightarrow> order_executed" where
  "order_executed_at r =
     \<lparr>oe_header = header_at r,
      oe_order_reference = load_big_endian (subspan r 11 8),
      oe_executed_shares = load_big_endian (subspan r 19 4),
      oe_match_number = load_big_endian (subspan r 23 8)\<rparr>"

definition order_executed_with_price_at :: "byte list \<Rightarrow> order_executed_with_price" where
  "order_executed_with_price_at r =
     \<lparr>op_executed = order_executed_at r, op_printable = char_of_byte (r ! 31), op_execution_price = load_big_endian (subspan r 32 4)\<rparr>"

definition order_cancel_at :: "byte list \<Rightarrow> order_cancel" where
  "order_cancel_at r =
     \<lparr>oc_header = header_at r,
      oc_order_reference = load_big_endian (subspan r 11 8),
      oc_cancelled_shares = load_big_endian (subspan r 19 4)\<rparr>"

definition order_delete_at :: "byte list \<Rightarrow> order_delete" where
  "order_delete_at r =
     \<lparr>od_header = header_at r,
      od_order_reference = load_big_endian (subspan r 11 8)\<rparr>"

definition order_replace_at :: "byte list \<Rightarrow> order_replace" where
  "order_replace_at r =
     \<lparr>ore_header = header_at r,
      ore_original_order_reference = load_big_endian (subspan r 11 8),
      ore_new_order_reference = load_big_endian (subspan r 19 8),
      ore_shares = load_big_endian (subspan r 27 4),
      ore_price = load_big_endian (subspan r 31 4)\<rparr>"

definition trade_non_cross_at :: "byte list \<Rightarrow> trade_non_cross" where
  "trade_non_cross_at r =
     \<lparr>tr_header = header_at r,
      tr_order_reference = load_big_endian (subspan r 11 8),
      tr_side = side_of_char (char_of_byte (r ! 19)),
      tr_shares = load_big_endian (subspan r 20 4),
      tr_stock = map char_of_byte (subspan r 24 8),
      tr_price = load_big_endian (subspan r 32 4),
      tr_match_number = load_big_endian (subspan r 36 8)\<rparr>"

definition stock_directory_at :: "byte list \<Rightarrow> stock_directory" where
  "stock_directory_at r =
     \<lparr>sd_header = header_at r,
      sd_stock = map char_of_byte (subspan r 11 8),
      sd_market_category = char_of_byte (r ! 19),
      sd_financial_status_indicator = char_of_byte (r ! 20),
      sd_round_lot_size = load_big_endian (subspan r 21 4),
      sd_round_lots_only = char_of_byte (r ! 25),
      sd_issue_classification = char_of_byte (r ! 26),
      sd_issue_sub_type = map char_of_byte (subspan r 27 2),
      sd_authenticity = char_of_byte (r ! 29),
      sd_short_sale_threshold_indicator = char_of_byte (r ! 30),
      sd_ipo_flag = char_of_byte (r ! 31),
      sd_luld_reference_price_tier = char_of_byte (r ! 32),
      sd_etp_flag = char_of_byte (r ! 33),
      sd_etp_leverage_factor = load_big_endian (subspan r 34 4),
      sd_inverse_indicator = char_of_byte (r ! 38)\<rparr>"

text \<open>The value of every decoder on a record of the specified length.\<close>

lemma decode_system_event_at:
  "length r = 12 \<Longrightarrow>
     decode_system_event b r = Inr (system_event_at r)"
  by (simp add: decode_system_event_def system_event_at_def assert_size_at run_simps
      spec_message_length_simps kHeaderLength_def)

lemma decode_add_order_at:
  "length r = 36 \<Longrightarrow>
     decode_add_order b r = (if b = Debug \<and> \<not> side_valid_at r then Inl AssertFailed
        else Inr (add_order_at r))"
  by (simp add: decode_add_order_def add_order_at_def assert_size_at assert_side_at run_simps
      spec_message_length_simps kHeaderLength_def)

lemma decode_add_order_with_mpid_at:
  "length r = 40 \<Longrightarrow>
     decode_add_order_with_mpid b r = (if b = Debug \<and> \<not> side_valid_at r then Inl AssertFailed
        else Inr (add_order_with_mpid_at r))"
  by (simp add: decode_add_order_with_mpid_def add_order_with_mpid_at_def add_order_at_def assert_size_at assert_side_at run_simps
      spec_message_length_simps kHeaderLength_def)

lemma decode_order_executed_at:
  "length r = 31 \<Longrightarrow>
     decode_order_executed b r = Inr (order_executed_at r)"
  by (simp add: decode_order_executed_def order_executed_at_def assert_size_at run_simps
      spec_message_length_simps kHeaderLength_def)

lemma decode_order_executed_with_price_at:
  "length r = 36 \<Longrightarrow>
     decode_order_executed_with_price b r = Inr (order_executed_with_price_at r)"
  by (simp add: decode_order_executed_with_price_def order_executed_with_price_at_def order_executed_at_def assert_size_at run_simps
      spec_message_length_simps kHeaderLength_def)

lemma decode_order_cancel_at:
  "length r = 23 \<Longrightarrow>
     decode_order_cancel b r = Inr (order_cancel_at r)"
  by (simp add: decode_order_cancel_def order_cancel_at_def assert_size_at run_simps
      spec_message_length_simps kHeaderLength_def)

lemma decode_order_delete_at:
  "length r = 19 \<Longrightarrow>
     decode_order_delete b r = Inr (order_delete_at r)"
  by (simp add: decode_order_delete_def order_delete_at_def assert_size_at run_simps
      spec_message_length_simps kHeaderLength_def)

lemma decode_order_replace_at:
  "length r = 35 \<Longrightarrow>
     decode_order_replace b r = Inr (order_replace_at r)"
  by (simp add: decode_order_replace_def order_replace_at_def assert_size_at run_simps
      spec_message_length_simps kHeaderLength_def)

lemma decode_trade_non_cross_at:
  "length r = 44 \<Longrightarrow>
     decode_trade_non_cross b r = (if b = Debug \<and> \<not> side_valid_at r then Inl AssertFailed
        else Inr (trade_non_cross_at r))"
  by (simp add: decode_trade_non_cross_def trade_non_cross_at_def assert_size_at assert_side_at run_simps
      spec_message_length_simps kHeaderLength_def)

lemma decode_stock_directory_at:
  "length r = 39 \<Longrightarrow>
     decode_stock_directory b r = Inr (stock_directory_at r)"
  by (simp add: decode_stock_directory_def stock_directory_at_def assert_size_at run_simps
      spec_message_length_simps kHeaderLength_def)

lemmas decode_at =
  decode_system_event_at
  decode_add_order_at
  decode_add_order_with_mpid_at
  decode_order_executed_at
  decode_order_executed_with_price_at
  decode_order_cancel_at
  decode_order_delete_at
  decode_order_replace_at
  decode_trade_non_cross_at
  decode_stock_directory_at

section \<open>Encoders\<close>

fun char_of_side :: "side \<Rightarrow> char" where
  "char_of_side Buy = CHR ''B''"
| "char_of_side Sell = CHR ''S''"
| "char_of_side (UnnamedSide c) = c"

definition encode_system_event :: "system_event \<Rightarrow> byte list" where
  "encode_system_event m =
     header (se_header m) @
     [byte_of_char (se_event_code m)]"

definition encode_add_order :: "add_order \<Rightarrow> byte list" where
  "encode_add_order m =
     header (ao_header m) @
     big_endian (ao_order_reference m) 8 @
     [byte_of_char (char_of_side (ao_side m))] @
     big_endian (ucast (ao_shares m)) 4 @
     alpha (ao_stock m) 8 @
     big_endian (ucast (ao_price m)) 4"

definition encode_add_order_with_mpid :: "add_order_with_mpid \<Rightarrow> byte list" where
  "encode_add_order_with_mpid m =
     encode_add_order (am_order m) @
     alpha (am_attribution m) 4"

definition encode_order_executed :: "order_executed \<Rightarrow> byte list" where
  "encode_order_executed m =
     header (oe_header m) @
     big_endian (oe_order_reference m) 8 @
     big_endian (ucast (oe_executed_shares m)) 4 @
     big_endian (oe_match_number m) 8"

definition encode_order_executed_with_price :: "order_executed_with_price \<Rightarrow> byte list" where
  "encode_order_executed_with_price m =
     encode_order_executed (op_executed m) @
     [byte_of_char (op_printable m)] @
     big_endian (ucast (op_execution_price m)) 4"

definition encode_order_cancel :: "order_cancel \<Rightarrow> byte list" where
  "encode_order_cancel m =
     header (oc_header m) @
     big_endian (oc_order_reference m) 8 @
     big_endian (ucast (oc_cancelled_shares m)) 4"

definition encode_order_delete :: "order_delete \<Rightarrow> byte list" where
  "encode_order_delete m =
     header (od_header m) @
     big_endian (od_order_reference m) 8"

definition encode_order_replace :: "order_replace \<Rightarrow> byte list" where
  "encode_order_replace m =
     header (ore_header m) @
     big_endian (ore_original_order_reference m) 8 @
     big_endian (ore_new_order_reference m) 8 @
     big_endian (ucast (ore_shares m)) 4 @
     big_endian (ucast (ore_price m)) 4"

definition encode_trade_non_cross :: "trade_non_cross \<Rightarrow> byte list" where
  "encode_trade_non_cross m =
     header (tr_header m) @
     big_endian (tr_order_reference m) 8 @
     [byte_of_char (char_of_side (tr_side m))] @
     big_endian (ucast (tr_shares m)) 4 @
     alpha (tr_stock m) 8 @
     big_endian (ucast (tr_price m)) 4 @
     big_endian (tr_match_number m) 8"

definition encode_stock_directory :: "stock_directory \<Rightarrow> byte list" where
  "encode_stock_directory m =
     header (sd_header m) @
     alpha (sd_stock m) 8 @
     [byte_of_char (sd_market_category m)] @
     [byte_of_char (sd_financial_status_indicator m)] @
     big_endian (ucast (sd_round_lot_size m)) 4 @
     [byte_of_char (sd_round_lots_only m)] @
     [byte_of_char (sd_issue_classification m)] @
     alpha (sd_issue_sub_type m) 2 @
     [byte_of_char (sd_authenticity m)] @
     [byte_of_char (sd_short_sale_threshold_indicator m)] @
     [byte_of_char (sd_ipo_flag m)] @
     [byte_of_char (sd_luld_reference_price_tier m)] @
     [byte_of_char (sd_etp_flag m)] @
     big_endian (ucast (sd_etp_leverage_factor m)) 4 @
     [byte_of_char (sd_inverse_indicator m)]"

lemmas encode_defs =
  encode_system_event_def
  encode_add_order_def
  encode_add_order_with_mpid_def
  encode_order_executed_def
  encode_order_executed_with_price_def
  encode_order_cancel_def
  encode_order_delete_def
  encode_order_replace_def
  encode_trade_non_cross_def
  encode_stock_directory_def

section \<open>Round trips, field by field\<close>

definition header_ok :: "message_header \<Rightarrow> bool" where
  "header_ok h \<longleftrightarrow> take_bit 48 (timestamp_ns h) = timestamp_ns h"

definition side_ok :: "side \<Rightarrow> bool" where
  "side_ok s \<longleftrightarrow> side_of_char (char_of_side s) = s"

lemma side_ok_side_of_char [simp]: "side_ok (side_of_char c)"
  by (simp add: side_ok_def side_of_char_def)

lemma char_of_side_of_char [simp]: "char_of_side (side_of_char c) = c"
  by (simp add: side_of_char_def)

lemma header_at_header: "header_ok h \<Longrightarrow> header_at (header h @ xs) = h"
  by (simp add: header_at_def header_def header_ok_def subspan_Cons subspan_skip subspan_here
      load_big_endian_u16 load_big_endian_u48)

lemmas field_back =
  big_endian_load_u16 big_endian_load_u32 big_endian_load_u48 big_endian_load_u64 alpha_chars

lemma header_header_at: "kHeaderLength \<le> length r \<Longrightarrow> header (header_at r) = subspan r 0 11"
  by (cases "r = []") (simp_all add: header_def header_at_def kHeaderLength_def kHeaderLength_def field_back subspan_simps)

lemma header_ok_header_at: "kHeaderLength \<le> length r \<Longrightarrow> header_ok (header_at r)"
  by (simp add: header_ok_def header_at_def load_u48_take_bit kHeaderLength_def)

text \<open>Reading past the header of an encoded message.\<close>

lemma header_skip:
  "11 \<le> i \<Longrightarrow> subspan (header h @ xs) i n = subspan xs (i - 11) n"
  "11 \<le> i \<Longrightarrow> (header h @ xs) ! i = xs ! (i - 11)"
  by (simp_all add: subspan_skip nth_append kHeaderLength_def)

lemmas field_at =
  header_at_header header_skip subspan_Cons subspan_skip subspan_here nth_append
  load_big_endian_u16 load_big_endian_u32 load_big_endian_u64 chars_alpha

lemma length_encode_system_event [simp]: "length (encode_system_event m) = 12"
  by (simp add: encode_system_event_def)

lemma length_encode_add_order [simp]: "length (encode_add_order m) = 36"
  by (simp add: encode_add_order_def)

lemma length_encode_add_order_with_mpid [simp]: "length (encode_add_order_with_mpid m) = 40"
  by (simp add: encode_add_order_with_mpid_def)

lemma length_encode_order_executed [simp]: "length (encode_order_executed m) = 31"
  by (simp add: encode_order_executed_def)

lemma length_encode_order_executed_with_price [simp]: "length (encode_order_executed_with_price m) = 36"
  by (simp add: encode_order_executed_with_price_def)

lemma length_encode_order_cancel [simp]: "length (encode_order_cancel m) = 23"
  by (simp add: encode_order_cancel_def)

lemma length_encode_order_delete [simp]: "length (encode_order_delete m) = 19"
  by (simp add: encode_order_delete_def)

lemma length_encode_order_replace [simp]: "length (encode_order_replace m) = 35"
  by (simp add: encode_order_replace_def)

lemma length_encode_trade_non_cross [simp]: "length (encode_trade_non_cross m) = 44"
  by (simp add: encode_trade_non_cross_def)

lemma length_encode_stock_directory [simp]: "length (encode_stock_directory m) = 39"
  by (simp add: encode_stock_directory_def)

lemma system_event_at_encode:
  "header_ok (se_header m) \<Longrightarrow>
     system_event_at (encode_system_event m @ xs) = m"
  by (simp add: encode_system_event_def system_event_at_def field_at)

lemma encode_system_event_at:
  "12 \<le> length r \<Longrightarrow> encode_system_event (system_event_at r) = subspan r 0 12"
  by (simp add: encode_system_event_def system_event_at_def field_back header_header_at subspan_simps
      kHeaderLength_def)

lemma add_order_at_encode:
  "header_ok (ao_header m) \<Longrightarrow> side_ok (ao_side m) \<Longrightarrow> length (ao_stock m) = 8 \<Longrightarrow>
     add_order_at (encode_add_order m @ xs) = m"
  by (simp add: encode_add_order_def add_order_at_def field_at side_ok_def)

lemma encode_add_order_at:
  "36 \<le> length r \<Longrightarrow> encode_add_order (add_order_at r) = subspan r 0 36"
  by (simp add: encode_add_order_def add_order_at_def field_back header_header_at subspan_simps
      kHeaderLength_def)

lemma order_executed_at_encode:
  "header_ok (oe_header m) \<Longrightarrow>
     order_executed_at (encode_order_executed m @ xs) = m"
  by (simp add: encode_order_executed_def order_executed_at_def field_at)

lemma encode_order_executed_at:
  "31 \<le> length r \<Longrightarrow> encode_order_executed (order_executed_at r) = subspan r 0 31"
  by (simp add: encode_order_executed_def order_executed_at_def field_back header_header_at subspan_simps
      kHeaderLength_def)

lemma order_cancel_at_encode:
  "header_ok (oc_header m) \<Longrightarrow>
     order_cancel_at (encode_order_cancel m @ xs) = m"
  by (simp add: encode_order_cancel_def order_cancel_at_def field_at)

lemma encode_order_cancel_at:
  "23 \<le> length r \<Longrightarrow> encode_order_cancel (order_cancel_at r) = subspan r 0 23"
  by (simp add: encode_order_cancel_def order_cancel_at_def field_back header_header_at subspan_simps
      kHeaderLength_def)

lemma order_delete_at_encode:
  "header_ok (od_header m) \<Longrightarrow>
     order_delete_at (encode_order_delete m @ xs) = m"
  by (simp add: encode_order_delete_def order_delete_at_def field_at)

lemma encode_order_delete_at:
  "19 \<le> length r \<Longrightarrow> encode_order_delete (order_delete_at r) = subspan r 0 19"
  by (simp add: encode_order_delete_def order_delete_at_def field_back header_header_at subspan_simps
      kHeaderLength_def)

lemma order_replace_at_encode:
  "header_ok (ore_header m) \<Longrightarrow>
     order_replace_at (encode_order_replace m @ xs) = m"
  by (simp add: encode_order_replace_def order_replace_at_def field_at)

lemma encode_order_replace_at:
  "35 \<le> length r \<Longrightarrow> encode_order_replace (order_replace_at r) = subspan r 0 35"
  by (simp add: encode_order_replace_def order_replace_at_def field_back header_header_at subspan_simps
      kHeaderLength_def)

lemma trade_non_cross_at_encode:
  "header_ok (tr_header m) \<Longrightarrow> side_ok (tr_side m) \<Longrightarrow> length (tr_stock m) = 8 \<Longrightarrow>
     trade_non_cross_at (encode_trade_non_cross m @ xs) = m"
  by (simp add: encode_trade_non_cross_def trade_non_cross_at_def field_at side_ok_def)

lemma encode_trade_non_cross_at:
  "44 \<le> length r \<Longrightarrow> encode_trade_non_cross (trade_non_cross_at r) = subspan r 0 44"
  by (simp add: encode_trade_non_cross_def trade_non_cross_at_def field_back header_header_at subspan_simps
      kHeaderLength_def)

lemma stock_directory_at_encode:
  "header_ok (sd_header m) \<Longrightarrow> length (sd_stock m) = 8 \<Longrightarrow> length (sd_issue_sub_type m) = 2 \<Longrightarrow>
     stock_directory_at (encode_stock_directory m @ xs) = m"
  by (simp add: encode_stock_directory_def stock_directory_at_def field_at)

lemma encode_stock_directory_at:
  "39 \<le> length r \<Longrightarrow> encode_stock_directory (stock_directory_at r) = subspan r 0 39"
  by (simp add: encode_stock_directory_def stock_directory_at_def field_back header_header_at subspan_simps
      kHeaderLength_def)


lemma add_order_with_mpid_at_encode:
  "header_ok (ao_header (am_order m)) \<Longrightarrow> side_ok (ao_side (am_order m)) \<Longrightarrow> length (ao_stock (am_order m)) = 8 \<Longrightarrow> length (am_attribution m) = 4 \<Longrightarrow>
     add_order_with_mpid_at (encode_add_order_with_mpid m @ xs) = m"
  by (simp add: encode_add_order_with_mpid_def add_order_with_mpid_at_def add_order_at_encode field_at length_encode_add_order)

lemma encode_add_order_with_mpid_at:
  "40 \<le> length r \<Longrightarrow> encode_add_order_with_mpid (add_order_with_mpid_at r) = subspan r 0 40"
  by (simp add: encode_add_order_with_mpid_def add_order_with_mpid_at_def encode_add_order_at field_back subspan_simps)

lemma order_executed_with_price_at_encode:
  "header_ok (oe_header (op_executed m)) \<Longrightarrow>
     order_executed_with_price_at (encode_order_executed_with_price m @ xs) = m"
  by (simp add: encode_order_executed_with_price_def order_executed_with_price_at_def order_executed_at_encode field_at length_encode_order_executed)

lemma encode_order_executed_with_price_at:
  "36 \<le> length r \<Longrightarrow> encode_order_executed_with_price (order_executed_with_price_at r) = subspan r 0 36"
  by (simp add: encode_order_executed_with_price_def order_executed_with_price_at_def encode_order_executed_at field_back subspan_simps)

lemmas at_encode =
  system_event_at_encode [where xs = "[]", simplified]
  add_order_at_encode [where xs = "[]", simplified]
  add_order_with_mpid_at_encode [where xs = "[]", simplified]
  order_executed_at_encode [where xs = "[]", simplified]
  order_executed_with_price_at_encode [where xs = "[]", simplified]
  order_cancel_at_encode [where xs = "[]", simplified]
  order_delete_at_encode [where xs = "[]", simplified]
  order_replace_at_encode [where xs = "[]", simplified]
  trade_non_cross_at_encode [where xs = "[]", simplified]
  stock_directory_at_encode [where xs = "[]", simplified]

lemmas encode_at =
  encode_system_event_at
  encode_add_order_at
  encode_add_order_with_mpid_at
  encode_order_executed_at
  encode_order_executed_with_price_at
  encode_order_cancel_at
  encode_order_delete_at
  encode_order_replace_at
  encode_trade_non_cross_at
  encode_stock_directory_at

section \<open>Messages\<close>

fun encode :: "message \<Rightarrow> byte list" where
  "encode (SystemEvent m) = encode_system_event m"
| "encode (AddOrder m) = encode_add_order m"
| "encode (AddOrderWithMpid m) = encode_add_order_with_mpid m"
| "encode (OrderExecuted m) = encode_order_executed m"
| "encode (OrderExecutedWithPrice m) = encode_order_executed_with_price m"
| "encode (OrderCancel m) = encode_order_cancel m"
| "encode (OrderDelete m) = encode_order_delete m"
| "encode (OrderReplace m) = encode_order_replace m"
| "encode (TradeNonCross m) = encode_trade_non_cross m"
| "encode (StockDirectory m) = encode_stock_directory m"
| "encode (Other ty record) = record"

text \<open>The header of a decoded message.\<close>

fun message_header :: "message \<Rightarrow> message_header" where
  "message_header (SystemEvent m) = se_header m"
| "message_header (AddOrder m) = ao_header m"
| "message_header (AddOrderWithMpid m) = ao_header (am_order m)"
| "message_header (OrderExecuted m) = oe_header m"
| "message_header (OrderExecutedWithPrice m) = oe_header (op_executed m)"
| "message_header (OrderCancel m) = oc_header m"
| "message_header (OrderDelete m) = od_header m"
| "message_header (OrderReplace m) = ore_header m"
| "message_header (TradeNonCross m) = tr_header m"
| "message_header (StockDirectory m) = sd_header m"
| "message_header (Other ty record) = header_at record"

text \<open>
  The messages the wire format can carry: the header names the type, timestamps fit their
  six bytes, alpha fields have their width, a side is a byte (an enumerator or none of
  them), and an undecoded message is a valid record of another type.
\<close>

definition decoded_types :: string where
  "decoded_types = ''ADEXUFCPSR''"

fun wf_message :: "message \<Rightarrow> bool" where
  "wf_message (SystemEvent m) \<longleftrightarrow> msg_type (se_header m) = CHR ''S'' \<and>
     header_ok (se_header m)"
| "wf_message (AddOrder m) \<longleftrightarrow> msg_type (ao_header m) = CHR ''A'' \<and>
     header_ok (ao_header m) \<and> side_ok (ao_side m) \<and> length (ao_stock m) = 8"
| "wf_message (AddOrderWithMpid m) \<longleftrightarrow> msg_type (ao_header (am_order m)) = CHR ''F'' \<and>
     header_ok (ao_header (am_order m)) \<and> side_ok (ao_side (am_order m)) \<and> length (ao_stock (am_order m)) = 8 \<and> length (am_attribution m) = 4"
| "wf_message (OrderExecuted m) \<longleftrightarrow> msg_type (oe_header m) = CHR ''E'' \<and>
     header_ok (oe_header m)"
| "wf_message (OrderExecutedWithPrice m) \<longleftrightarrow> msg_type (oe_header (op_executed m)) = CHR ''C'' \<and>
     header_ok (oe_header (op_executed m))"
| "wf_message (OrderCancel m) \<longleftrightarrow> msg_type (oc_header m) = CHR ''X'' \<and>
     header_ok (oc_header m)"
| "wf_message (OrderDelete m) \<longleftrightarrow> msg_type (od_header m) = CHR ''D'' \<and>
     header_ok (od_header m)"
| "wf_message (OrderReplace m) \<longleftrightarrow> msg_type (ore_header m) = CHR ''U'' \<and>
     header_ok (ore_header m)"
| "wf_message (TradeNonCross m) \<longleftrightarrow> msg_type (tr_header m) = CHR ''P'' \<and>
     header_ok (tr_header m) \<and> side_ok (tr_side m) \<and> length (tr_stock m) = 8"
| "wf_message (StockDirectory m) \<longleftrightarrow> msg_type (sd_header m) = CHR ''R'' \<and>
     header_ok (sd_header m) \<and> length (sd_stock m) = 8 \<and> length (sd_issue_sub_type m) = 2"
| "wf_message (Other ty record) \<longleftrightarrow>
     valid_record record \<and> record_type record = ty \<and> ty \<notin> set decoded_types"

text \<open>The message in a record.\<close>

definition decoded :: "byte list \<Rightarrow> message" where
  "decoded r =
     (let ty = record_type r in
      if ty = CHR ''A'' then AddOrder (add_order_at r)
      else if ty = CHR ''D'' then OrderDelete (order_delete_at r)
      else if ty = CHR ''E'' then OrderExecuted (order_executed_at r)
      else if ty = CHR ''X'' then OrderCancel (order_cancel_at r)
      else if ty = CHR ''U'' then OrderReplace (order_replace_at r)
      else if ty = CHR ''F'' then AddOrderWithMpid (add_order_with_mpid_at r)
      else if ty = CHR ''C'' then OrderExecutedWithPrice (order_executed_with_price_at r)
      else if ty = CHR ''P'' then TradeNonCross (trade_non_cross_at r)
      else if ty = CHR ''S'' then SystemEvent (system_event_at r)
      else if ty = CHR ''R'' then StockDirectory (stock_directory_at r)
      else Other ty r)"

text \<open>Which records pass the side assertion of a debug build.\<close>

definition passes_side_check :: "byte list \<Rightarrow> bool" where
  "passes_side_check r \<longleftrightarrow> (record_type r \<in> set ''AFP'' \<longrightarrow> side_valid_at r)"

lemma record_type_cases:
  obtains (A) "record_type r = CHR ''A''" | (D) "record_type r = CHR ''D''" | (E) "record_type r = CHR ''E''" | (X) "record_type r = CHR ''X''"
  | (U) "record_type r = CHR ''U''" | (F) "record_type r = CHR ''F''" | (C) "record_type r = CHR ''C''" | (P) "record_type r = CHR ''P''" | (S) "record_type r = CHR ''S''" | (R) "record_type r = CHR ''R''"
  | (other) "record_type r \<notin> set decoded_types"
  by (auto simp: decoded_types_def)

lemma valid_record_length:
  "valid_record r \<Longrightarrow> length r = spec_size (record_type r)"
  by (simp add: valid_record_def)

lemma valid_record_header_length: "valid_record r \<Longrightarrow> kHeaderLength \<le> length r"
  by (cases "record_type r" rule: spec_size_cases) (auto simp: valid_record_def kHeaderLength_def)

lemma decode_message_decoded:
  assumes "valid_record r"
  shows "decode_message b (record_type r) r =
    (if b = Debug \<and> \<not> passes_side_check r then Inl AssertFailed else Inr (decoded r))"
proof (cases r rule: record_type_cases)
  case other
  then show ?thesis
    by (auto simp: decode_message_def decoded_def decoded_types_def passes_side_check_def)
qed (use valid_record_length [OF assms] in
    \<open>simp_all add: decode_message_def decoded_def passes_side_check_def decode_at
      spec_message_length_simps\<close>)

lemma encode_decoded:
  assumes "valid_record r"
  shows "encode (decoded r) = r"
proof (cases r rule: record_type_cases)
  case other
  then show ?thesis by (auto simp: decoded_def decoded_types_def)
qed (use valid_record_length [OF assms] in
    \<open>simp_all add: decoded_def encode_at subspan_all spec_message_length_simps\<close>)

lemma record_type_header: "r \<noteq> [] \<Longrightarrow> msg_type (header_at r) = record_type r"
  by (simp add: header_at_def record_type_def hd_conv_nth)

lemma record_type_encode [simp]:
  "record_type (header h @ xs) = msg_type h"
  by (simp add: header_def record_type_def)

lemma header_nonempty [simp]: "header h \<noteq> []"
  by (simp add: header_def)

lemma valid_encode:
  "wf_message m \<Longrightarrow>
     valid_record (encode m) \<and> record_type (encode m) = msg_type (message_header m)"
  by (cases m)
    (auto simp: valid_record_def encode_defs spec_message_length_simps record_type_header)

lemma decoded_encode:
  assumes "wf_message m"
  shows "decoded (encode m) = m"
proof -
  have "record_type (encode m) = msg_type (message_header m)"
    using valid_encode [OF assms] by simp
  with assms show ?thesis
    by (cases m) (auto simp: decoded_def decoded_types_def at_encode)
qed

lemma wf_decoded:
  assumes "valid_record r"
  shows "wf_message (decoded r)"
proof (cases r rule: record_type_cases)
  case other
  then show ?thesis using assms by (auto simp: decoded_def decoded_types_def)
qed (use assms valid_record_length [OF assms] in
    \<open>simp_all add: decoded_def spec_message_length_simps record_type_header valid_record_def
      header_ok_header_at kHeaderLength_def
      add_order_at_def order_delete_at_def order_executed_at_def order_cancel_at_def
      order_replace_at_def add_order_with_mpid_at_def order_executed_with_price_at_def
      trade_non_cross_at_def system_event_at_def stock_directory_at_def\<close>)

text \<open>Encoding inverts decoding, byte for byte.\<close>

lemma encode_decode:
  assumes "valid_record r"
  shows "\<exists>m. decode_message Release (record_type r) r = Inr m \<and> wf_message m \<and> encode m = r"
  using decode_message_decoded [OF assms, of Release] wf_decoded [OF assms] encode_decoded [OF assms]
  by simp

end
