(* ===== verification/Session.thy ===== *)
theory Session
  imports Codec
begin

text \<open>
  A whole buffer, as \<open>parse_all\<close> sees it: framing, decoding and delivery together. The
  messages of a buffer are the decoded records of its split into frames; parsing delivers
  them in order, unless a side assertion of a debug build stops it.

  The locales are the contracts between the parser and its clients: a handler that keeps an
  invariant, one without undefined behaviour, one that never stops, one that counts. A client
  promises something about the delivery of one message; the parser gives it for every
  buffer. Each client theory interprets them on its own handler.
\<close>

section \<open>Parsing is delivering the messages of the records\<close>

definition session_records :: "byte list \<Rightarrow> byte list list" where
  "session_records file = fst (split_frames file)"

definition session_messages :: "byte list \<Rightarrow> message list" where
  "session_messages file = map decoded (session_records file)"

definition session_outcome :: "byte list \<Rightarrow> frame_outcome" where
  "session_outcome file = split_outcome file (split_frames file)"

definition passes_asserts :: "build \<Rightarrow> byte list \<Rightarrow> bool" where
  "passes_asserts b file \<longleftrightarrow> b = Debug \<longrightarrow> list_all passes_side_check (session_records file)"

lemma session_records_sound:
  "file = concat (map framed (session_records file)) @ snd (split_frames file)"
  "list_all valid_record (session_records file)"
  "snd (split_frames file) = [] \<or> head_fault (snd (split_frames file)) \<noteq> None"
  using split_frames_sound [of "session_records file" "snd (split_frames file)" "file"]
  by (simp_all add: session_records_def)

lemma deliver_all_decoded:
  assumes "list_all valid_record rs" and "b = Debug \<longrightarrow> list_all passes_side_check rs"
  shows "deliver_all (\<lambda>ty record. dispatch_record b ty record h) rs s =
    fold_run (deliver h) (map decoded rs) s"
  using assms
  by (induction rs arbitrary: s)
    (auto simp: deliver_all_def dispatch_record_deliver decode_message_decoded bind_run_def
      split: sum.split)

lemma parse_all_deliver:
  "passes_asserts b file \<Longrightarrow>
     parse_all b file h s =
       map_run (\<lambda>s'. (session_outcome file, s')) (fold_run (deliver h) (session_messages file) s)"
  using session_records_sound(2) [of "file"]
  by (simp add: parse_all_def frame_all_split passes_asserts_def session_messages_def
      session_outcome_def session_records_def deliver_all_decoded)

text \<open>A record that fails the side check stops a debug build, whatever the handler is.\<close>

lemma deliver_all_stops:
  assumes "list_all valid_record rs" and "\<not> list_all passes_side_check rs"
  shows "\<exists>e. deliver_all (\<lambda>ty record. dispatch_record Debug ty record h) rs s = Inl e"
  using assms
proof (induction rs arbitrary: s)
  case Nil
  then show ?case by simp
next
  case (Cons r rs)
  then show ?case
    by (auto simp: deliver_all_def dispatch_record_deliver decode_message_decoded bind_run_def
        split: sum.split if_splits)
qed

lemma parse_all_Inr:
  assumes "parse_all b file h s = Inr (out, s')"
  shows "passes_asserts b file" and "out = session_outcome file"
    and "fold_run (deliver h) (session_messages file) s = Inr s'"
proof -
  show asserts: "passes_asserts b file"
  proof (rule ccontr)
    assume "\<not> passes_asserts b file"
    then obtain e where "deliver_all (\<lambda>ty record. dispatch_record b ty record h)
        (session_records file) s = Inl e"
      using deliver_all_stops session_records_sound(2) by (fastforce simp: passes_asserts_def)
    with assms show False
      by (simp add: parse_all_def frame_all_split session_records_def)
  qed
  show "out = session_outcome file" "fold_run (deliver h) (session_messages file) s = Inr s'"
    using assms parse_all_deliver [OF asserts, of h s] by (auto simp: map_run_Inr_iff)
qed

lemma wf_session_messages: "m \<in> set (session_messages file) \<Longrightarrow> wf_message m"
  using session_records_sound(2) [of "file"] wf_decoded
  by (auto simp: session_messages_def list_all_iff)

lemma messages_session_outcome [simp]:
  "messages (session_outcome file) = length (session_messages file)"
  by (auto simp: session_outcome_def split_outcome_def session_messages_def session_records_def
      Let_def split: prod.split option.split)

text \<open>The outcome is complete exactly when the records cover the buffer.\<close>

lemma complete_session_outcome:
  "complete (session_outcome file) \<longleftrightarrow> snd (split_frames file) = []"
  using session_records_sound(3) [of "file"]
  by (auto simp: complete_def session_outcome_def split_outcome_def Let_def
      split: prod.split option.split)

lemma bytes_consumed_session_outcome:
  "bytes_consumed (session_outcome file) = length file - length (snd (split_frames file))"
  by (simp add: session_outcome_def split_outcome_def Let_def split: prod.split option.split)

text \<open>A record takes at least 14 bytes with its prefix, so the loop runs as often at most.\<close>

lemma session_messages_bytes:
  "14 * length (session_messages file) \<le> bytes_consumed (session_outcome file)"
proof -
  have long: "12 \<le> length r" if "valid_record r" for r
    using that by (cases "record_type r" rule: spec_size_cases) (auto simp: valid_record_def)
  have "14 * length rs \<le> length (concat (map framed rs))" if "list_all valid_record rs" for rs
    using that
  proof (induction rs)
    case (Cons r rs)
    then show ?case using long [of r] by (simp add: framed_def Let_def)
  qed simp
  from this [OF session_records_sound(2) [of "file"]]
  have "14 * length (session_records file) + length (snd (split_frames file)) \<le>
      length (concat (map framed (session_records file)) @ snd (split_frames file))"
    by simp
  then show ?thesis
    unfolding session_records_sound(1) [symmetric]
    by (simp add: session_messages_def bytes_consumed_session_outcome)
qed

lemma frame_all_total:
  assumes "\<And>ty r s. \<exists>s'. on_message ty r s = Inr s'"
  shows "\<exists>s'. frame_all file on_message s = Inr (session_outcome file, s')"
proof -
  obtain s' where "deliver_all on_message (session_records file) s = Inr s'"
    using fold_run_total [of "session_records file" "\<lambda>r. on_message (record_type r) r" s] assms
    by (auto simp: deliver_all_def)
  then show ?thesis by (simp add: frame_all_split session_outcome_def session_records_def)
qed

lemma session_messages_length: "length (session_messages file) \<le> length file"
  using session_messages_bytes [of "file"] by (simp add: bytes_consumed_session_outcome)

text \<open>A session written out by the encoder is read back as its messages.\<close>

definition encode_session :: "message list \<Rightarrow> byte list" where
  "encode_session ms = concat (map (\<lambda>m. framed (encode m)) ms)"

fun names_side :: "message \<Rightarrow> bool" where
  "names_side (AddOrder m) \<longleftrightarrow> ao_side m = Buy \<or> ao_side m = Sell"
| "names_side (AddOrderWithMpid m) \<longleftrightarrow> ao_side (am_order m) = Buy \<or> ao_side (am_order m) = Sell"
| "names_side (TradeNonCross m) \<longleftrightarrow> tr_side m = Buy \<or> tr_side m = Sell"
| "names_side _ \<longleftrightarrow> True"

lemma split_frames_encode_session:
  assumes "list_all wf_message ms"
  shows "split_frames (encode_session ms) = (map encode ms, [])"
proof -
  have "list_all valid_record (map encode ms)"
    using assms valid_encode by (auto simp: list_all_iff)
  from split_frames_complete [OF this, of "[]"] show ?thesis
    by (simp add: encode_session_def comp_def split_frames_stop)
qed

lemma session_messages_encode:
  "list_all wf_message ms \<Longrightarrow> session_messages (encode_session ms) = ms"
  by (simp add: session_messages_def session_records_def split_frames_encode_session)
    (simp add: list_all_iff map_idI decoded_encode)

lemma passes_side_check_encode:
  "wf_message m \<Longrightarrow> passes_side_check (encode m) \<longleftrightarrow> names_side m"
  by (cases m)
    (auto simp: passes_side_check_def encode_defs side_valid_at_def is_valid_side_def field_at
      decoded_types_def side_ok_def side_of_char_def split: if_splits elim!: char_of_side.elims)

lemma passes_asserts_encode:
  assumes "list_all wf_message ms"
  shows "passes_asserts b (encode_session ms) \<longleftrightarrow> b = Debug \<longrightarrow> list_all names_side ms"
  using assms passes_side_check_encode
  by (auto simp: passes_asserts_def session_records_def split_frames_encode_session list_all_iff)

section \<open>Contracts of a handler\<close>

locale invariant_handler =
  fixes h :: "'s handler" and inv :: "'s \<Rightarrow> bool"
  assumes deliver_inv: "inv s \<Longrightarrow> wf_message m \<Longrightarrow> deliver h m s = Inr s' \<Longrightarrow> inv s'"
begin

lemma session_inv:
  assumes "parse_all b file h s = Inr (out, s')" and "inv s"
  shows "inv s'"
  using parse_all_Inr(3) [OF assms(1)] assms(2)
  by (rule fold_run_invariant) (use deliver_inv wf_session_messages in blast)

end

text \<open>
  A handler without undefined behaviour: from its invariant it either returns, keeping the
  invariant, or an assertion of a debug build fails.
\<close>

definition safe_result :: "build \<Rightarrow> ('a \<Rightarrow> bool) \<Rightarrow> 'a run \<Rightarrow> bool" where
  "safe_result b P m \<longleftrightarrow> m = Inl AssertFailed \<and> b = Debug \<or> (\<exists>x. m = Inr x \<and> P x)"

lemma safe_result_Inr [simp]: "safe_result b P (Inr x) = P x"
  by (simp add: safe_result_def)

lemma safe_result_bind:
  "safe_result b P m \<Longrightarrow> (\<And>x. P x \<Longrightarrow> safe_result b Q (f x)) \<Longrightarrow> safe_result b Q (bind_run m f)"
  unfolding safe_result_def by (elim disjE exE conjE) simp_all

lemma safe_result_Release: "safe_result Release P m \<longleftrightarrow> (\<exists>x. m = Inr x \<and> P x)"
  by (simp add: safe_result_def)

locale safe_handler =
  fixes b :: build and h :: "'s handler" and inv :: "'s \<Rightarrow> bool"
  assumes deliver_safe: "inv s \<Longrightarrow> wf_message m \<Longrightarrow> safe_result b inv (deliver h m s)"
begin

lemma records_safe:
  "list_all valid_record rs \<Longrightarrow> inv s \<Longrightarrow>
     safe_result b inv (deliver_all (\<lambda>ty record. dispatch_record b ty record h) rs s)"
proof (induction rs arbitrary: s)
  case Nil
  then show ?case by (simp add: deliver_all_def)
next
  case (Cons r rs)
  then have r: "valid_record r" by simp
  have "safe_result b inv (dispatch_record b (record_type r) r h s)"
    using deliver_safe [OF Cons.prems(2) wf_decoded [OF r]]
    by (simp add: dispatch_record_deliver decode_message_decoded [OF r] safe_result_def)
  then show ?case
    using Cons.IH Cons.prems(1) by (auto simp: deliver_all_def intro: safe_result_bind)
qed

lemma session_safe:
  assumes "inv s"
  shows "safe_result b (\<lambda>(out, s'). out = session_outcome file \<and> inv s') (parse_all b file h s)"
  using records_safe [OF session_records_sound(2) [of "file"] assms]
  by (auto simp: parse_all_def frame_all_split session_records_def session_outcome_def
      safe_result_def)

end

sublocale safe_handler \<subseteq> invariant_handler h inv
  using deliver_safe by unfold_locales (fastforce simp: safe_result_def)

text \<open>A handler without assertions: only the decoders can stop it.\<close>

locale total_handler =
  fixes h :: "'s handler" and inv :: "'s \<Rightarrow> bool"
  assumes deliver_total: "inv s \<Longrightarrow> wf_message m \<Longrightarrow> \<exists>s'. deliver h m s = Inr s' \<and> inv s'"

sublocale total_handler \<subseteq> safe: safe_handler b h inv for b
  using deliver_total by unfold_locales (simp add: safe_result_def)

context total_handler begin

lemma fold_total:
  "inv s \<Longrightarrow> list_all wf_message ms \<Longrightarrow> \<exists>s'. fold_run (deliver h) ms s = Inr s' \<and> inv s'"
proof (induction ms arbitrary: s)
  case (Cons m ms)
  then obtain t where "deliver h m s = Inr t" "inv t" using deliver_total by fastforce
  with Cons show ?case by simp
qed simp

lemma session_total:
  assumes "passes_asserts b file" and "inv s"
  shows "\<exists>s'. parse_all b file h s = Inr (session_outcome file, s') \<and> inv s'"
proof -
  have "list_all wf_message (session_messages file)"
    using wf_session_messages by (simp add: list_all_iff)
  with assms(2) obtain s' where "fold_run (deliver h) (session_messages file) s = Inr s'" "inv s'"
    using fold_total by blast
  then show ?thesis by (simp add: parse_all_deliver [OF assms(1)])
qed

end

text \<open>A handler that tallies the messages of one kind, as long as its invariant holds.\<close>

locale tallying_handler =
  fixes h :: "'s handler" and inv :: "'s \<Rightarrow> bool" and tally :: "'s \<Rightarrow> u64" and kind :: "message \<Rightarrow> bool"
  assumes deliver_tally: "inv s \<Longrightarrow> wf_message m \<Longrightarrow> deliver h m s = Inr s' \<Longrightarrow>
    inv s' \<and> tally s' = tally s + (if kind m then 1 else 0)"
begin

lemma fold_tally:
  "list_all wf_message ms \<Longrightarrow> inv s \<Longrightarrow> fold_run (deliver h) ms s = Inr s' \<Longrightarrow>
     inv s' \<and> tally s' = tally s + of_nat (length (filter kind ms))"
proof (induction ms arbitrary: s)
  case (Cons m ms)
  then obtain t where t: "deliver h m s = Inr t" and rest: "fold_run (deliver h) ms t = Inr s'"
    by (auto simp: bind_run_Inr_iff)
  have "wf_message m" and wf: "list_all wf_message ms" using Cons.prems(1) by simp_all
  then have step: "inv t" "tally t = tally s + (if kind m then 1 else 0)"
    using deliver_tally [OF Cons.prems(2) _ t] by simp_all
  from Cons.IH [OF wf step(1) rest] show ?case by (simp add: step(2))
qed simp

lemma session_tally:
  assumes "parse_all b file h s = Inr (out, s')" and "inv s"
  shows "tally s' = tally s + of_nat (length (filter kind (session_messages file)))"
  using fold_tally [OF _ assms(2)] parse_all_Inr(3) [OF assms(1)] wf_session_messages
  by (simp add: list_all_iff)

end

sublocale tallying_handler \<subseteq> invariant_handler h inv
  using deliver_tally by unfold_locales blast

text \<open>A handler that counts every message it is given.\<close>

locale counting_handler = total_handler h "\<lambda>_. True" for h :: "'s handler" +
  fixes tally :: "'s \<Rightarrow> u64"
  assumes deliver_counts: "deliver h m s = Inr s' \<Longrightarrow> tally s' = tally s + 1"

sublocale counting_handler \<subseteq> every: tallying_handler h "\<lambda>_. True" tally "\<lambda>_. True"
  using deliver_counts by unfold_locales simp

context counting_handler begin

lemma session_counts:
  assumes "parse_all b file h s = Inr (out, s')"
  shows "tally s' = tally s + of_nat (messages out)"
  using every.session_tally [OF assms] parse_all_Inr(2) [OF assms] by simp

end

end
