(* ===== verification/Containers.thy ===== *)
theory Containers
  imports Itch_Prelude
begin

text \<open>
  The standard containers the order book uses.

  \<^item> \<open>std::map<K, V, Compare>\<close>: an association list kept in the order of the comparator;
    keys are equal when neither comes before the other. \<open>begin()\<close> is the head.
  \<^item> \<open>std::unordered_map<K, V>\<close>: an association list whose order carries no meaning (the
    code never iterates over it). \<open>emplace\<close> does nothing when the key is present.
  \<^item> \<open>std::list<T>\<close>: a list of nodes. An iterator is the node it points to, so it stays
    valid while other elements come and go, as the library guarantees.

  The locale \<open>ordering\<close> of comparators proves what the map operations do; it is interpreted
  on \<open>std::greater\<close> (bids) and \<open>std::less\<close> (asks). The locale \<open>hash_map\<close> is the
  interface of the lookup table, interpreted on the association list operations.
\<close>

section \<open>Ordered maps\<close>

type_synonym 'k comparator = "'k \<Rightarrow> 'k \<Rightarrow> bool"

fun map_find :: "'k comparator \<Rightarrow> 'k \<Rightarrow> ('k \<times> 'v) list \<Rightarrow> 'v option" where
  "map_find cmp k [] = None"
| "map_find cmp k ((k', v) # xs) =
     (if cmp k' k then map_find cmp k xs else if cmp k k' then None else Some v)"

fun map_put :: "'k comparator \<Rightarrow> 'k \<Rightarrow> 'v \<Rightarrow> ('k \<times> 'v) list \<Rightarrow> ('k \<times> 'v) list" where
  "map_put cmp k v [] = [(k, v)]"
| "map_put cmp k v ((k', v') # xs) =
     (if cmp k' k then (k', v') # map_put cmp k v xs
      else if cmp k k' then (k, v) # (k', v') # xs
      else (k', v) # xs)"

fun map_erase :: "'k comparator \<Rightarrow> 'k \<Rightarrow> ('k \<times> 'v) list \<Rightarrow> ('k \<times> 'v) list" where
  "map_erase cmp k [] = []"
| "map_erase cmp k ((k', v) # xs) =
     (if cmp k' k then (k', v) # map_erase cmp k xs
      else if cmp k k' then (k', v) # xs else xs)"

definition sorted_map :: "'k comparator \<Rightarrow> ('k \<times> 'v) list \<Rightarrow> bool" where
  "sorted_map cmp xs \<longleftrightarrow> sorted_wrt cmp (map fst xs)"

locale ordering =
  fixes cmp :: "'k comparator"
  assumes less_irrefl: "\<not> cmp a a"
    and less_trans: "cmp a b \<Longrightarrow> cmp b c \<Longrightarrow> cmp a c"
    and less_linear: "a \<noteq> b \<Longrightarrow> cmp a b \<or> cmp b a"
begin

lemma less_asym: "cmp a b \<Longrightarrow> \<not> cmp b a"
  using less_irrefl less_trans by blast

lemma distinct_sorted: "sorted_map cmp xs \<Longrightarrow> distinct (map fst xs)"
  by (induction xs) (auto simp: sorted_map_def less_irrefl)

lemma map_of_before: "sorted_map cmp xs \<Longrightarrow> \<forall>k' \<in> fst ` set xs. cmp k k' \<Longrightarrow> map_of xs k = None"
  using less_irrefl by (fastforce simp: map_of_eq_None_iff)

lemma find_map_of: "sorted_map cmp xs \<Longrightarrow> map_find cmp k xs = map_of xs k"
proof (induction xs)
  case (Cons x xs)
  then show ?case
    using less_irrefl less_linear [of k "fst x"] map_of_before [of xs k] less_trans [of k "fst x"]
    by (cases x) (auto simp: sorted_map_def)
qed simp

lemma keys_put: "fst ` set (map_put cmp k v xs) = insert k (fst ` set xs)"
proof (induction xs)
  case (Cons x xs)
  then show ?case using less_linear [of k "fst x"] by (cases x) auto
qed simp

lemma sorted_put: "sorted_map cmp xs \<Longrightarrow> sorted_map cmp (map_put cmp k v xs)"
proof (induction xs)
  case (Cons x xs)
  then show ?case
    using keys_put [of k v xs] less_trans [of k "fst x"]
    by (cases x) (auto simp: sorted_map_def)
qed (simp add: sorted_map_def)

lemma map_of_put: "sorted_map cmp xs \<Longrightarrow> map_of (map_put cmp k v xs) = (map_of xs)(k \<mapsto> v)"
proof (induction xs)
  case (Cons x xs)
  then show ?case
    using less_irrefl less_linear [of k "fst x"]
    by (cases x) (auto simp: sorted_map_def fun_eq_iff)
qed (simp add: fun_eq_iff)

lemma set_erase: "set (map_erase cmp k xs) \<subseteq> set xs"
  by (induction xs) (auto split: if_splits)

lemma sorted_erase: "sorted_map cmp xs \<Longrightarrow> sorted_map cmp (map_erase cmp k xs)"
proof (induction xs)
  case (Cons x xs)
  then show ?case
    using set_erase [of k xs] by (cases x) (auto simp: sorted_map_def)
qed simp

lemma map_of_erase: "sorted_map cmp xs \<Longrightarrow> map_of (map_erase cmp k xs) = (map_of xs)(k := None)"
proof (induction xs)
  case (Cons x xs)
  then show ?case
    using less_irrefl less_linear [of k "fst x"] map_of_before [of xs k] less_trans [of k "fst x"]
    by (cases x) (auto simp: sorted_map_def fun_eq_iff)
qed (simp add: fun_eq_iff)

text \<open>The head of the list comes before every other key.\<close>

lemma begin_first:
  "sorted_map cmp ((k, v) # xs) \<Longrightarrow> k' \<in> fst ` set ((k, v) # xs) \<Longrightarrow> k' = k \<or> cmp k k'"
  by (auto simp: sorted_map_def)

end

section \<open>Hash maps\<close>

type_synonym ('k, 'v) table = "('k \<times> 'v) list"

definition table_find :: "'k \<Rightarrow> ('k, 'v) table \<Rightarrow> 'v option" where
  "table_find k t = map_of t k"

definition table_emplace :: "'k \<Rightarrow> 'v \<Rightarrow> ('k, 'v) table \<Rightarrow> ('k, 'v) table" where
  "table_emplace k v t = (case map_of t k of None \<Rightarrow> (k, v) # t | Some _ \<Rightarrow> t)"

definition table_erase :: "'k \<Rightarrow> ('k, 'v) table \<Rightarrow> ('k, 'v) table" where
  "table_erase k t = AList.delete k t"

definition table_ok :: "('k, 'v) table \<Rightarrow> bool" where
  "table_ok t \<longleftrightarrow> distinct (map fst t)"

locale hash_map =
  fixes find :: "'k \<Rightarrow> 'm \<Rightarrow> 'v option"
    and emplace :: "'k \<Rightarrow> 'v \<Rightarrow> 'm \<Rightarrow> 'm"
    and erase :: "'k \<Rightarrow> 'm \<Rightarrow> 'm"
    and size_of :: "'m \<Rightarrow> nat"
    and ok :: "'m \<Rightarrow> bool"
  assumes find_emplace:
      "find k' (emplace k v m) = (if k' = k \<and> find k m = None then Some v else find k' m)"
    and find_erase: "find k' (erase k m) = (if k' = k then None else find k' m)"
    and size_card: "ok m \<Longrightarrow> size_of m = card {k. find k m \<noteq> None}"
    and finite_keys: "finite {k. find k m \<noteq> None}"
    and ok_emplace: "ok m \<Longrightarrow> ok (emplace k v m)"
    and ok_erase: "ok m \<Longrightarrow> ok (erase k m)"
begin

lemma find_other: "k' \<noteq> k \<Longrightarrow> find k' (emplace k v m) = find k' m"
  by (simp add: find_emplace)

lemma size_emplace_new:
  assumes "ok m" and "find k m = None"
  shows "size_of (emplace k v m) = Suc (size_of m)"
proof -
  have "{k'. find k' (emplace k v m) \<noteq> None} = insert k {k'. find k' m \<noteq> None}"
    using assms(2) by (auto simp: find_emplace)
  then show ?thesis
    using assms finite_keys [of m] by (simp add: size_card ok_emplace)
qed

lemma size_erase:
  assumes "ok m" and "find k m \<noteq> None"
  shows "Suc (size_of (erase k m)) = size_of m"
proof -
  have "insert k {k'. find k' (erase k m) \<noteq> None} = {k'. find k' m \<noteq> None}"
    using assms(2) by (auto simp: find_erase)
  moreover have "k \<notin> {k'. find k' (erase k m) \<noteq> None}" by (simp add: find_erase)
  ultimately show ?thesis
    using assms finite_keys [of "erase k m"]
    by (metis card_insert_disjoint size_card ok_erase)
qed

lemma size_le: "finite A \<Longrightarrow> ok m \<Longrightarrow> (\<And>k. find k m \<noteq> None \<Longrightarrow> k \<in> A) \<Longrightarrow> size_of m \<le> card A"
  by (auto simp: size_card intro: card_mono)

end

interpretation table: hash_map table_find table_emplace table_erase length table_ok
proof
  fix m :: "('a, 'b) table"
  have keys: "{k. table_find k m \<noteq> None} = fst ` set m"
    by (auto simp: table_find_def map_of_eq_None_iff)
  show "finite {k. table_find k m \<noteq> None}" unfolding keys by simp
  show "table_ok m \<Longrightarrow> length m = card {k. table_find k m \<noteq> None}"
    by (metis keys distinct_card length_map list.set_map table_ok_def)
qed (auto simp: table_find_def table_emplace_def table_erase_def table_ok_def
    delete_conv simp flip: map_of_eq_None_iff intro: distinct_delete split: option.split)

section \<open>Lists and their iterators\<close>

type_synonym node = nat

definition list_deref :: "node \<Rightarrow> (node \<times> 'a) list \<Rightarrow> 'a option" where
  "list_deref it xs = map_of xs it"

definition list_erase :: "node \<Rightarrow> (node \<times> 'a) list \<Rightarrow> (node \<times> 'a) list" where
  "list_erase it xs = filter (\<lambda>(n, _). n \<noteq> it) xs"

definition list_store :: "node \<Rightarrow> 'a \<Rightarrow> (node \<times> 'a) list \<Rightarrow> (node \<times> 'a) list" where
  "list_store it x xs = map (\<lambda>(n, y). (n, if n = it then x else y)) xs"

lemma nodes_erase: "set (map fst (list_erase it xs)) = set (map fst xs) - {it}"
  by (auto simp: list_erase_def)

lemma nodes_store [simp]: "map fst (list_store it x xs) = map fst xs"
  by (simp add: list_store_def case_prod_beta comp_def)

lemma list_store_Nil_iff [simp]: "list_store it x xs = [] \<longleftrightarrow> xs = []"
  by (simp add: list_store_def)

lemma set_store:
  "distinct (map fst xs) \<Longrightarrow> (n, y) \<in> set (list_store it x xs) \<longleftrightarrow>
     (if n = it then y = x \<and> n \<in> fst ` set xs else (n, y) \<in> set xs)"
  by (force simp: list_store_def)

end
