(* ===== verification/Order_Book.thy ===== *)
theory Order_Book
  imports Session Containers
begin

text \<open>
  \<open>include/itch/order_book.hpp\<close> and \<open>src/order_book.cpp\<close>: the single-symbol order book.
  The state is the record \<open>order_book\<close>; every overload of \<open>on\<close> is a state transformer
  with the code's guards and order of updates, and the overloads make up the handler
  \<open>book_handler\<close> that \<open>parse_all\<close> drives.

  The template parameter \<open>Levels\<close> of \<open>insert_order\<close> and \<open>reduce_or_remove_in\<close> is the
  comparator. \<open>next_node\<close> is the allocator: every \<open>push_back\<close> takes a fresh node.
  Share totals and tallies are 64-bit and wrap as in the code. Dereferencing an iterator
  that is not in its level's list is undefined behaviour.
\<close>

section \<open>State\<close>

record resting_order =
  ro_order_reference :: u64
  ro_shares :: u32

record price_level =
  pl_orders :: "(node \<times> resting_order) list"
  pl_total_shares :: u64

record book_level =
  bl_price :: price_ticks
  bl_shares :: u64

record order_location =
  ol_side :: side
  ol_price :: price_ticks
  ol_position :: node

record stats =
  adds :: u64
  executions :: u64
  cancels :: u64
  deletes :: u64
  replaces :: u64
  trades :: u64

type_synonym levels = "(price_ticks \<times> price_level) list"
type_synonym order_table = "(u64, order_location) table"

record order_book =
  locate :: u16
  bids :: levels
  asks :: levels
  orders :: order_table
  book_stats :: stats
  next_node :: node

definition empty_level :: price_level where
  "empty_level = \<lparr>pl_orders = [], pl_total_shares = 0\<rparr>"

definition initial_stats :: stats where
  "initial_stats = \<lparr>adds = 0, executions = 0, cancels = 0, deletes = 0, replaces = 0, trades = 0\<rparr>"

definition initial_book :: order_book where
  "initial_book = \<lparr>locate = 0, bids = [], asks = [], orders = [], book_stats = initial_stats,
     next_node = 0\<rparr>"

text \<open>\<open>std::greater\<close> for bids, \<open>std::less\<close> for asks.\<close>

definition bid_before :: "price_ticks comparator" where
  "bid_before a b \<longleftrightarrow> b < a"

definition ask_before :: "price_ticks comparator" where
  "ask_before a b \<longleftrightarrow> a < b"

interpretation bid_order: ordering bid_before
  by unfold_locales (auto simp: bid_before_def)

interpretation ask_order: ordering ask_before
  by unfold_locales (auto simp: ask_before_def)

section \<open>Operations\<close>

definition set_locate :: "build \<Rightarrow> u16 \<Rightarrow> order_book \<Rightarrow> order_book run" where
  "set_locate b new_locate bk =
     bind_run (assert_run b (Inr (locate bk = 0))) (\<lambda>_.
     bind_run (assert_run b (Inr (new_locate \<noteq> 0))) (\<lambda>_.
       Inr (bk\<lparr>locate := new_locate\<rparr>)))"

text \<open>\<open>levels[price]\<close>: the level at the price, a fresh empty one if there is none.\<close>

definition level_at :: "price_ticks comparator \<Rightarrow> price_ticks \<Rightarrow> levels \<Rightarrow> price_level" where
  "level_at cmp price levels =
     (case map_find cmp price levels of None \<Rightarrow> empty_level | Some level \<Rightarrow> level)"

definition insert_order ::
  "price_ticks comparator \<Rightarrow> node \<Rightarrow> levels \<Rightarrow> order_table \<Rightarrow> side \<Rightarrow> u64 \<Rightarrow> price_ticks \<Rightarrow> u32 \<Rightarrow>
   levels \<times> order_table" where
  "insert_order cmp new levels table side reference price shares =
     (let level = level_at cmp price levels;
          level' = level\<lparr>
            pl_orders := pl_orders level @
              [(new, \<lparr>ro_order_reference = reference, ro_shares = shares\<rparr>)],
            pl_total_shares := pl_total_shares level + ucast shares\<rparr>
      in (map_put cmp price level' levels,
          table_emplace reference
            \<lparr>ol_side = side, ol_price = price, ol_position = new\<rparr> table))"

definition reduce_or_remove_in ::
  "price_ticks comparator \<Rightarrow> build \<Rightarrow> levels \<Rightarrow> order_table \<Rightarrow> order_location \<Rightarrow> u64 \<Rightarrow> u32 \<Rightarrow> bool \<Rightarrow>
   (levels \<times> order_table) run" where
  "reduce_or_remove_in cmp b levels table location reference shares_removed remove_all =
     (let level_it = map_find cmp (ol_price location) levels in
      bind_run (assert_run b (Inr (level_it \<noteq> None))) (\<lambda>_.
      case level_it of
        None \<Rightarrow> Inl UndefinedBehaviour
      | Some level \<Rightarrow>
         (case list_deref (ol_position location) (pl_orders level) of
            None \<Rightarrow> Inl UndefinedBehaviour
          | Some resting \<Rightarrow>
              let removed = (if remove_all then ro_shares resting else shares_removed) in
              bind_run (assert_run b (Inr (removed \<le> ro_shares resting))) (\<lambda>_.
                let total = pl_total_shares level - ucast removed;
                    resting' = resting\<lparr>ro_shares := ro_shares resting - removed\<rparr>;
                    queue = list_store (ol_position location) resting' (pl_orders level)
                in if remove_all \<or> ro_shares resting' = 0 then
                     let queue' = list_erase (ol_position location) queue
                     in Inr (if queue' = [] then map_erase cmp (ol_price location) levels
                             else map_put cmp (ol_price location)
                               (level\<lparr>pl_orders := queue', pl_total_shares := total\<rparr>) levels,
                             table_erase reference table)
                   else Inr (map_put cmp (ol_price location)
                               (level\<lparr>pl_orders := queue, pl_total_shares := total\<rparr>) levels,
                             table)))))"

definition reduce_or_remove ::
  "build \<Rightarrow> u64 \<Rightarrow> u32 \<Rightarrow> bool \<Rightarrow> order_book \<Rightarrow> order_book run" where
  "reduce_or_remove b reference shares_removed remove_all bk =
     (case table_find reference (orders bk) of
        None \<Rightarrow> Inr bk
      | Some location \<Rightarrow>
          if ol_side location = Buy then
            bind_run (reduce_or_remove_in bid_before b (bids bk) (orders bk) location reference
                        shares_removed remove_all)
              (\<lambda>(levels, table). Inr (bk\<lparr>bids := levels, orders := table\<rparr>))
          else
            bind_run (reduce_or_remove_in ask_before b (asks bk) (orders bk) location reference
                        shares_removed remove_all)
              (\<lambda>(levels, table). Inr (bk\<lparr>asks := levels, orders := table\<rparr>)))"

text \<open>The calls \<open>insert_order(bids_, Side::Buy, ...)\<close> and \<open>insert_order(asks_, Side::Sell, ...)\<close>.\<close>

definition insert_on_side ::
  "bool \<Rightarrow> u64 \<Rightarrow> price_ticks \<Rightarrow> u32 \<Rightarrow> order_book \<Rightarrow> order_book" where
  "insert_on_side buy reference price shares bk =
     (if buy then
        let (levels, table) = insert_order bid_before (next_node bk) (bids bk) (orders bk) Buy
              reference price shares
        in bk\<lparr>bids := levels, orders := table, next_node := Suc (next_node bk)\<rparr>
      else
        let (levels, table) = insert_order ask_before (next_node bk) (asks bk) (orders bk) Sell
              reference price shares
        in bk\<lparr>asks := levels, orders := table, next_node := Suc (next_node bk)\<rparr>)"

definition book_add :: "add_order \<Rightarrow> order_book \<Rightarrow> order_book run" where
  "book_add m bk =
     (if stock_locate (ao_header m) \<noteq> locate bk then Inr bk
      else
        let bk' = insert_on_side (ao_side m = Buy) (ao_order_reference m) (ao_price m)
              (ao_shares m) bk
        in Inr (bk'\<lparr>book_stats := (book_stats bk')\<lparr>adds := adds (book_stats bk') + 1\<rparr>\<rparr>))"

definition book_add_with_mpid :: "add_order_with_mpid \<Rightarrow> order_book \<Rightarrow> order_book run" where
  "book_add_with_mpid m = book_add (am_order m)"

definition book_executed :: "build \<Rightarrow> order_executed \<Rightarrow> order_book \<Rightarrow> order_book run" where
  "book_executed b m bk =
     (if stock_locate (oe_header m) \<noteq> locate bk then Inr bk
      else bind_run (reduce_or_remove b (oe_order_reference m) (oe_executed_shares m) False bk)
        (\<lambda>bk'. Inr (bk'\<lparr>book_stats :=
           (book_stats bk')\<lparr>executions := executions (book_stats bk') + 1\<rparr>\<rparr>)))"

definition book_executed_with_price ::
  "build \<Rightarrow> order_executed_with_price \<Rightarrow> order_book \<Rightarrow> order_book run" where
  "book_executed_with_price b m = book_executed b (op_executed m)"

definition book_cancel :: "build \<Rightarrow> order_cancel \<Rightarrow> order_book \<Rightarrow> order_book run" where
  "book_cancel b m bk =
     (if stock_locate (oc_header m) \<noteq> locate bk then Inr bk
      else bind_run (reduce_or_remove b (oc_order_reference m) (oc_cancelled_shares m) False bk)
        (\<lambda>bk'. Inr (bk'\<lparr>book_stats :=
           (book_stats bk')\<lparr>cancels := cancels (book_stats bk') + 1\<rparr>\<rparr>)))"

definition book_delete :: "build \<Rightarrow> order_delete \<Rightarrow> order_book \<Rightarrow> order_book run" where
  "book_delete b m bk =
     (if stock_locate (od_header m) \<noteq> locate bk then Inr bk
      else bind_run (reduce_or_remove b (od_order_reference m) 0 True bk)
        (\<lambda>bk'. Inr (bk'\<lparr>book_stats :=
           (book_stats bk')\<lparr>deletes := deletes (book_stats bk') + 1\<rparr>\<rparr>)))"

definition book_replace :: "build \<Rightarrow> order_replace \<Rightarrow> order_book \<Rightarrow> order_book run" where
  "book_replace b m bk =
     (if stock_locate (ore_header m) \<noteq> locate bk then Inr bk
      else case table_find (ore_original_order_reference m) (orders bk) of
        None \<Rightarrow> Inr bk
      | Some location \<Rightarrow>
          bind_run (reduce_or_remove b (ore_original_order_reference m) 0 True bk) (\<lambda>bk1.
            let bk2 = insert_on_side (ol_side location = Buy) (ore_new_order_reference m)
                  (ore_price m) (ore_shares m) bk1
            in Inr (bk2\<lparr>book_stats :=
                 (book_stats bk2)\<lparr>replaces := replaces (book_stats bk2) + 1\<rparr>\<rparr>)))"

definition book_trade :: "trade_non_cross \<Rightarrow> order_book \<Rightarrow> order_book run" where
  "book_trade m bk =
     (if stock_locate (tr_header m) = locate bk
      then Inr (bk\<lparr>book_stats := (book_stats bk)\<lparr>trades := trades (book_stats bk) + 1\<rparr>\<rparr>)
      else Inr bk)"

definition book_handler :: "build \<Rightarrow> order_book handler" where
  "book_handler b =
     \<lparr>on_system_event = (\<lambda>_. Inr),
      on_add_order = book_add,
      on_add_order_with_mpid = book_add_with_mpid,
      on_order_executed = book_executed b,
      on_order_executed_with_price = book_executed_with_price b,
      on_order_cancel = book_cancel b,
      on_order_delete = book_delete b,
      on_order_replace = book_replace b,
      on_trade_non_cross = book_trade,
      on_stock_directory = (\<lambda>_. Inr),
      on_other = (\<lambda>_ _. Inr)\<rparr>"

section \<open>Queries\<close>

definition best_level :: "levels \<Rightarrow> book_level option" where
  "best_level levels =
     (case levels of
        [] \<Rightarrow> None
      | (price, level) # _ \<Rightarrow> Some \<lparr>bl_price = price, bl_shares = pl_total_shares level\<rparr>)"

definition best_bid :: "order_book \<Rightarrow> book_level option" where
  "best_bid bk = best_level (bids bk)"

definition best_ask :: "order_book \<Rightarrow> book_level option" where
  "best_ask bk = best_level (asks bk)"

definition order_count :: "order_book \<Rightarrow> nat" where
  "order_count bk = length (orders bk)"

definition bid_level_count :: "order_book \<Rightarrow> nat" where
  "bid_level_count bk = length (bids bk)"

definition ask_level_count :: "order_book \<Rightarrow> nat" where
  "ask_level_count bk = length (asks bk)"

section \<open>The representation check\<close>

text \<open>
  The loops of \<open>check_rep\<close>: \<open>None\<close> is an early \<open>return false\<close>; otherwise the running
  share sum and the running count of orders.
\<close>

fun check_queue ::
  "order_table \<Rightarrow> side \<Rightarrow> price_ticks \<Rightarrow> (node \<times> resting_order) list \<Rightarrow> u64 \<Rightarrow> nat \<Rightarrow>
   (u64 \<times> nat) option" where
  "check_queue table side price [] summed n = Some (summed, n)"
| "check_queue table side price ((it, resting) # queue) summed n =
     (let summed' = summed + ucast (ro_shares resting) in
      case table_find (ro_order_reference resting) table of
        None \<Rightarrow> None
      | Some location \<Rightarrow>
          if ol_side location \<noteq> side \<or> ol_price location \<noteq> price \<or> ol_position location \<noteq> it
          then None
          else check_queue table side price queue summed' (n + 1))"

fun check_side :: "order_table \<Rightarrow> side \<Rightarrow> levels \<Rightarrow> nat \<Rightarrow> nat option" where
  "check_side table side [] n = Some n"
| "check_side table side ((price, level) # levels) n =
     (if pl_orders level = [] then None
      else case check_queue table side price (pl_orders level) 0 n of
        None \<Rightarrow> None
      | Some (summed, n') \<Rightarrow>
          if summed \<noteq> pl_total_shares level then None
          else check_side table side levels n')"

definition check_rep :: "order_book \<Rightarrow> bool" where
  "check_rep bk =
     (case check_side (orders bk) Buy (bids bk) 0 of
        None \<Rightarrow> False
      | Some n \<Rightarrow>
          (case check_side (orders bk) Sell (asks bk) n of
             None \<Rightarrow> False
           | Some total_orders \<Rightarrow> total_orders = length (orders bk)))"

end
