(* ===== verification/Book_Levels.thy ===== *)
theory Book_Levels
  imports Order_Book
begin

text \<open>
  What \<open>insert_order\<close> and \<open>reduce_or_remove_in\<close> do to the levels of one side of the book.
  Both replace one level; a level whose queue becomes empty is erased. The locale
  \<open>book_side\<close> proves this once for any comparator; it is interpreted on the bids and on
  the asks.
\<close>

section \<open>Levels seen as a map from prices\<close>

definition level_shares :: "price_level \<Rightarrow> u64" where
  "level_shares l = sum_list (map (\<lambda>(n, r). ucast (ro_shares r)) (pl_orders l))"

text \<open>What the library guarantees of a list's nodes: distinct, and allocated before.\<close>

definition nodes_ok :: "node \<Rightarrow> price_level \<Rightarrow> bool" where
  "nodes_ok nn l \<longleftrightarrow> distinct (map fst (pl_orders l)) \<and> (\<forall>n \<in> fst ` set (pl_orders l). n < nn)"

text \<open>What the book maintains of a level: it is not empty and its total is right.\<close>

definition level_ok :: "price_level \<Rightarrow> bool" where
  "level_ok l \<longleftrightarrow> pl_orders l \<noteq> [] \<and> pl_total_shares l = level_shares l"

definition nodes_of_side_ok :: "node \<Rightarrow> levels \<Rightarrow> bool" where
  "nodes_of_side_ok nn levels \<longleftrightarrow> (\<forall>p l. map_of levels p = Some l \<longrightarrow> nodes_ok nn l)"

definition side_levels_ok :: "levels \<Rightarrow> bool" where
  "side_levels_ok levels \<longleftrightarrow> (\<forall>p l. map_of levels p = Some l \<longrightarrow> level_ok l)"

text \<open>An order rests at a price, in a node.\<close>

definition rests_at :: "levels \<Rightarrow> price_ticks \<Rightarrow> node \<Rightarrow> resting_order \<Rightarrow> bool" where
  "rests_at levels p n r \<longleftrightarrow> (\<exists>l. map_of levels p = Some l \<and> (n, r) \<in> set (pl_orders l))"

text \<open>The queue at a price: references and shares, oldest first.\<close>

definition order_view :: "node \<times> resting_order \<Rightarrow> u64 \<times> u32" where
  "order_view = (\<lambda>(n, r). (ro_order_reference r, ro_shares r))"

definition queue_at :: "levels \<Rightarrow> price_ticks \<Rightarrow> (u64 \<times> u32) list" where
  "queue_at levels p =
     (case map_of levels p of None \<Rightarrow> [] | Some l \<Rightarrow> map order_view (pl_orders l))"

text \<open>The share total kept for a price, if there is a level.\<close>

definition total_at :: "levels \<Rightarrow> price_ticks \<Rightarrow> u64 option" where
  "total_at levels p = map_option pl_total_shares (map_of levels p)"

text \<open>The one change both operations make to the levels.\<close>

definition replace_level :: "price_ticks \<Rightarrow> price_level \<Rightarrow> levels \<Rightarrow> levels \<Rightarrow> bool" where
  "replace_level p l levels levels' \<longleftrightarrow>
     map_of levels' = (map_of levels)(p := if pl_orders l = [] then None else Some l)"

lemma rests_at_replace:
  "replace_level p l levels levels' \<Longrightarrow>
     rests_at levels' p' n r \<longleftrightarrow>
       (if p' = p then (n, r) \<in> set (pl_orders l) else rests_at levels p' n r)"
  by (auto simp: replace_level_def rests_at_def)

lemma queue_at_replace:
  "replace_level p l levels levels' \<Longrightarrow>
     queue_at levels' = (queue_at levels)(p := map order_view (pl_orders l))"
  by (auto simp: replace_level_def queue_at_def fun_eq_iff)

lemma nodes_of_side_replace:
  "replace_level p l levels levels' \<Longrightarrow> nodes_of_side_ok nn levels \<Longrightarrow> nodes_ok nn l \<Longrightarrow>
     nodes_of_side_ok nn levels'"
  by (auto simp: replace_level_def nodes_of_side_ok_def split: if_splits)

lemma side_levels_replace:
  "replace_level p l levels levels' \<Longrightarrow> side_levels_ok levels \<Longrightarrow>
     pl_total_shares l = level_shares l \<Longrightarrow> side_levels_ok levels'"
  by (auto simp: replace_level_def side_levels_ok_def level_ok_def split: if_splits)

lemma nodes_ok_mono: "nodes_ok nn l \<Longrightarrow> nn \<le> nn' \<Longrightarrow> nodes_ok nn' l"
  by (auto simp: nodes_ok_def)

lemma nodes_of_side_mono: "nodes_of_side_ok nn levels \<Longrightarrow> nn \<le> nn' \<Longrightarrow> nodes_of_side_ok nn' levels"
  by (auto simp: nodes_of_side_ok_def intro: nodes_ok_mono)

section \<open>Appending, shrinking and removing an order of a level\<close>

definition appended :: "node \<Rightarrow> u64 \<Rightarrow> u32 \<Rightarrow> price_level \<Rightarrow> price_level" where
  "appended new reference shares l =
     l\<lparr>pl_orders := pl_orders l @ [(new, \<lparr>ro_order_reference = reference, ro_shares = shares\<rparr>)],
       pl_total_shares := pl_total_shares l + ucast shares\<rparr>"

definition reduced :: "node \<Rightarrow> resting_order \<Rightarrow> u32 \<Rightarrow> bool \<Rightarrow> price_level \<Rightarrow> price_level" where
  "reduced it resting removed gone l =
     l\<lparr>pl_orders :=
         (if gone then list_erase it (pl_orders l)
          else list_store it (resting\<lparr>ro_shares := ro_shares resting - removed\<rparr>) (pl_orders l)),
       pl_total_shares := pl_total_shares l - ucast removed\<rparr>"

lemma nodes_ok_appended: "nodes_ok nn l \<Longrightarrow> nodes_ok (Suc nn) (appended nn ref shares l)"
  by (auto simp: nodes_ok_def appended_def less_Suc_eq)

lemma nodes_ok_reduced: "nodes_ok nn l \<Longrightarrow> nodes_ok nn (reduced it r removed gone l)"
  by (auto simp: nodes_ok_def reduced_def list_erase_def list_store_def distinct_map_filter
      case_prod_beta comp_def)

lemma level_shares_appended:
  "pl_total_shares l = level_shares l \<Longrightarrow>
     pl_total_shares (appended nn ref shares l) = level_shares (appended nn ref shares l)"
  by (simp add: level_shares_def appended_def)

lemma erase_erase_store [simp]: "list_erase it (list_store it x xs) = list_erase it xs"
  by (induction xs) (auto simp: list_erase_def list_store_def)

lemma map_of_nodes:
  "distinct (map fst xs) \<Longrightarrow> map_of xs it = Some r \<longleftrightarrow> (it, r) \<in> set xs"
  by simp

text \<open>Erasing or shrinking one node changes the sum of the shares by what was removed.\<close>

lemma sum_erase:
  fixes f :: "'a \<Rightarrow> 'b::ab_group_add"
  assumes "distinct (map fst xs)" and "(it, r) \<in> set xs"
  shows "sum_list (map (\<lambda>(n, x). f x) (list_erase it xs)) = sum_list (map (\<lambda>(n, x). f x) xs) - f r"
  using assms
proof (induction xs)
  case (Cons x xs)
  have "it \<notin> fst ` set xs \<Longrightarrow> list_erase it xs = xs"
    by (force simp: list_erase_def intro: filter_True)
  with Cons show ?case by (cases x) (force simp: list_erase_def)
qed simp

lemma sum_store:
  fixes f :: "'a \<Rightarrow> 'b::ab_group_add"
  assumes "distinct (map fst xs)" and "(it, r) \<in> set xs"
  shows "sum_list (map (\<lambda>(n, x). f x) (list_store it y xs)) =
    sum_list (map (\<lambda>(n, x). f x) xs) - f r + f y"
  using assms
proof (induction xs)
  case (Cons x xs)
  have "it \<notin> fst ` set xs \<Longrightarrow> list_store it y xs = xs"
    by (induction xs) (auto simp: list_store_def)
  moreover have "list_store it y (x # xs) =
      (fst x, if fst x = it then y else snd x) # list_store it y xs"
    by (cases x) (simp add: list_store_def)
  moreover have "(it, r) \<in> set xs \<Longrightarrow> it \<in> fst ` set xs" by force
  ultimately show ?case using Cons by (cases x) (auto simp: algebra_simps)
qed simp


lemma level_shares_reduced:
  assumes "nodes_ok nn l" and "pl_total_shares l = level_shares l"
    and "(it, r) \<in> set (pl_orders l)"
    and "removed \<le> ro_shares r" and "gone \<Longrightarrow> removed = ro_shares r"
  shows "pl_total_shares (reduced it r removed gone l) = level_shares (reduced it r removed gone l)"
proof -
  have "ucast (ro_shares r - removed) = (ucast (ro_shares r) - ucast removed :: u64)"
    using assms(4) by (rule ucast_sub_u64)
  then show ?thesis
    using assms sum_erase [of "pl_orders l" it r "\<lambda>x. ucast (ro_shares x) :: u64"]
      sum_store [of "pl_orders l" it r "\<lambda>x. ucast (ro_shares x) :: u64"]
    by (simp add: reduced_def level_shares_def nodes_ok_def)
qed

section \<open>One side of the book\<close>

locale book_side = ordering cmp for cmp :: "price_ticks comparator"
begin

lemma level_at_map_of:
  "sorted_map cmp levels \<Longrightarrow>
     level_at cmp price levels =
       (case map_of levels price of None \<Rightarrow> empty_level | Some l \<Rightarrow> l)"
  by (simp add: level_at_def find_map_of)

lemma insert_order_levels:
  assumes "sorted_map cmp levels"
    and "insert_order cmp new levels table sd ref price shares = (levels', table')"
  shows "replace_level price (appended new ref shares (level_at cmp price levels)) levels levels'"
    and "sorted_map cmp levels'"
    and "table' = table_emplace ref \<lparr>ol_side = sd, ol_price = price, ol_position = new\<rparr> table"
  using assms sorted_put [OF assms(1)]
  by (auto simp: insert_order_def Let_def replace_level_def appended_def map_of_put)

lemma reduce_or_remove_in_Inr:
  assumes "sorted_map cmp levels"
    and "reduce_or_remove_in cmp b levels table location ref sr ra = Inr (levels', table')"
  obtains l r removed gone where
    "map_of levels (ol_price location) = Some l"
    "map_of (pl_orders l) (ol_position location) = Some r"
    "removed = (if ra then ro_shares r else sr)"
    "gone \<longleftrightarrow> ra \<or> ro_shares r - removed = 0"
    "replace_level (ol_price location) (reduced (ol_position location) r removed gone l) levels levels'"
    "sorted_map cmp levels'"
    "table' = (if gone then table_erase ref table else table)"
proof -
  let ?p = "ol_price location" and ?it = "ol_position location"
  obtain l r where l: "map_of levels ?p = Some l" and r: "map_of (pl_orders l) ?it = Some r"
    using assms
    by (auto simp: reduce_or_remove_in_def Let_def bind_run_Inr_iff find_map_of list_deref_def
        split: option.splits)
  define removed where "removed = (if ra then ro_shares r else sr)"
  define gone where "gone \<longleftrightarrow> ra \<or> ro_shares r - removed = 0"
  let ?l = "reduced ?it r removed gone l"
  have "pl_orders l \<noteq> []" using r by auto
  then have "levels' = (if pl_orders ?l = [] then map_erase cmp ?p levels else map_put cmp ?p ?l levels)"
    and table: "table' = (if gone then table_erase ref table else table)"
    using assms l r
    by (auto simp: reduce_or_remove_in_def Let_def bind_run_Inr_iff find_map_of list_deref_def
        removed_def gone_def reduced_def split: if_splits)
  then have "replace_level ?p ?l levels levels'" and "sorted_map cmp levels'"
    using assms(1) by (auto simp: replace_level_def map_of_put map_of_erase sorted_put sorted_erase)
  then show ?thesis by (rule that [OF l r removed_def gone_def _ _ table])
qed

lemma reduce_or_remove_in_total:
  assumes "sorted_map cmp levels"
    and "map_of levels (ol_price location) = Some l"
    and "map_of (pl_orders l) (ol_position location) = Some r"
    and "ra \<or> sr \<le> ro_shares r"
  shows "\<exists>res. reduce_or_remove_in cmp b levels table location ref sr ra = Inr res"
  using assms
  by (auto simp: reduce_or_remove_in_def Let_def find_map_of list_deref_def)

text \<open>On a located order only the share assertion can stop it.\<close>

lemma reduce_or_remove_in_stops:
  assumes "sorted_map cmp levels"
    and "map_of levels (ol_price location) = Some l"
    and "map_of (pl_orders l) (ol_position location) = Some r"
    and "reduce_or_remove_in cmp b levels table location ref sr ra = Inl e"
  shows "e = AssertFailed \<and> b = Debug"
  using assms
  by (cases b; cases "(if ra then ro_shares r else sr) \<le> ro_shares r")
    (auto simp: reduce_or_remove_in_def Let_def find_map_of list_deref_def split: if_splits)

text \<open>Taking more than rests is what stops it.\<close>

lemma reduce_or_remove_in_over:
  assumes "sorted_map cmp levels"
    and "map_of levels (ol_price location) = Some l"
    and "map_of (pl_orders l) (ol_position location) = Some r"
    and "ro_shares r < sr"
  shows "reduce_or_remove_in cmp Debug levels table location ref sr False = Inl AssertFailed"
proof -
  have "\<not> sr \<le> ro_shares r" "ro_shares r \<noteq> sr" using assms(4) by auto
  then show ?thesis
    using assms(1-3) by (simp add: reduce_or_remove_in_def Let_def find_map_of list_deref_def)
qed

end

interpretation bid_side: book_side bid_before
  by unfold_locales

interpretation ask_side: book_side ask_before
  by unfold_locales

end
