(* ===== verification/Book_Invariant.thy ===== *)
theory Book_Invariant
  imports Book_Levels
begin

text \<open>
  The representation invariant of the order book, its preservation by every operation, and
  its agreement with \<open>check_rep\<close>.

  \<open>heap_ok\<close> is what the containers guarantee whatever the messages are: levels in comparator
  order, distinct keys, list nodes allocated and distinct. \<open>rep_ok\<close> adds what the book
  itself maintains: no empty level, exact totals, and a lookup table that holds exactly the
  resting orders, each with its side, price and node. \<open>check_rep\<close> decides the second part.
\<close>

section \<open>The invariant\<close>

fun side_levels :: "side \<Rightarrow> order_book \<Rightarrow> levels" where
  "side_levels Buy bk = bids bk"
| "side_levels Sell bk = asks bk"
| "side_levels (UnnamedSide c) bk = []"

definition heap_ok :: "order_book \<Rightarrow> bool" where
  "heap_ok bk \<longleftrightarrow>
     sorted_map bid_before (bids bk) \<and> sorted_map ask_before (asks bk) \<and>
     table_ok (orders bk) \<and> (\<forall>sd. nodes_of_side_ok (next_node bk) (side_levels sd bk))"

definition linked :: "order_book \<Rightarrow> bool" where
  "linked bk \<longleftrightarrow>
     (\<forall>ref loc. table_find ref (orders bk) = Some loc \<longleftrightarrow>
        (\<exists>r. rests_at (side_levels (ol_side loc) bk) (ol_price loc) (ol_position loc) r \<and>
             ro_order_reference r = ref))"

definition rep_ok :: "order_book \<Rightarrow> bool" where
  "rep_ok bk \<longleftrightarrow>
     heap_ok bk \<and> (\<forall>sd. side_levels_ok (side_levels sd bk)) \<and> linked bk"

lemma rep_ok_heap [simp]: "rep_ok bk \<Longrightarrow> heap_ok bk"
  by (simp add: rep_ok_def)

lemma rep_ok_initial: "rep_ok (initial_book\<lparr>locate := loc\<rparr>)"
proof -
  have "side_levels sd (initial_book\<lparr>locate := loc\<rparr>) = []" for sd
    by (cases sd) (simp_all add: initial_book_def)
  then show ?thesis
    by (simp add: rep_ok_def heap_ok_def linked_def sorted_map_def table_ok_def table_find_def
        nodes_of_side_ok_def side_levels_ok_def rests_at_def initial_book_def)
qed

text \<open>Tallies and the locate play no part in the invariant.\<close>

lemma invariant_stats [simp]:
  "side_levels sd (bk\<lparr>book_stats := st\<rparr>) = side_levels sd bk"
  "heap_ok (bk\<lparr>book_stats := st\<rparr>) = heap_ok bk"
  "linked (bk\<lparr>book_stats := st\<rparr>) = linked bk"
  "rep_ok (bk\<lparr>book_stats := st\<rparr>) = rep_ok bk"
proof -
  show sides: "side_levels sd (bk\<lparr>book_stats := st\<rparr>) = side_levels sd bk" for sd
    by (cases sd) simp_all
  show "heap_ok (bk\<lparr>book_stats := st\<rparr>) = heap_ok bk" "linked (bk\<lparr>book_stats := st\<rparr>) = linked bk"
    "rep_ok (bk\<lparr>book_stats := st\<rparr>) = rep_ok bk"
    by (simp_all add: rep_ok_def heap_ok_def linked_def sides)
qed

section \<open>The effect of an operation on the book\<close>

text \<open>One level of one side is replaced; the rest of the levels stays.\<close>

definition changes_level :: "side \<Rightarrow> price_ticks \<Rightarrow> price_level \<Rightarrow> order_book \<Rightarrow> order_book \<Rightarrow> bool" where
  "changes_level sd p l bk bk' \<longleftrightarrow>
     replace_level p l (side_levels sd bk) (side_levels sd bk') \<and>
     (\<forall>sd'. sd' \<noteq> sd \<longrightarrow> side_levels sd' bk' = side_levels sd' bk)"

lemma rests_at_changes:
  "changes_level sd p l bk bk' \<Longrightarrow>
     rests_at (side_levels sd' bk') p' n r \<longleftrightarrow>
       (if sd' = sd \<and> p' = p then (n, r) \<in> set (pl_orders l)
        else rests_at (side_levels sd' bk) p' n r)"
  by (cases "sd' = sd") (auto simp: changes_level_def rests_at_replace)

lemma queue_at_changes:
  "changes_level sd p l bk bk' \<Longrightarrow>
     queue_at (side_levels sd' bk') p' =
       (if sd' = sd \<and> p' = p then map order_view (pl_orders l)
        else queue_at (side_levels sd' bk) p')"
  by (cases "sd' = sd") (auto simp: changes_level_def queue_at_replace)

lemma side_levels_changes:
  "changes_level sd p l bk bk' \<Longrightarrow> \<forall>sd. side_levels_ok (side_levels sd bk) \<Longrightarrow>
     pl_total_shares l = level_shares l \<Longrightarrow> side_levels_ok (side_levels sd' bk')"
  by (cases "sd' = sd") (auto simp: changes_level_def intro: side_levels_replace)

lemma nodes_changes:
  "changes_level sd p l bk bk' \<Longrightarrow> \<forall>sd. nodes_of_side_ok nn (side_levels sd bk) \<Longrightarrow>
     nn \<le> nn' \<Longrightarrow> nodes_ok nn' l \<Longrightarrow> nodes_of_side_ok nn' (side_levels sd' bk')"
  by (cases "sd' = sd")
    (auto simp: changes_level_def intro: nodes_of_side_replace [OF _ nodes_of_side_mono]
      nodes_of_side_mono)

text \<open>The side a flag chooses, its comparator, and a book with new levels on that side.\<close>

definition side_of_flag :: "bool \<Rightarrow> side" where
  "side_of_flag buy = (if buy then Buy else Sell)"

definition side_order :: "bool \<Rightarrow> price_ticks comparator" where
  "side_order buy = (if buy then bid_before else ask_before)"

definition put_side :: "bool \<Rightarrow> levels \<Rightarrow> order_book \<Rightarrow> order_book" where
  "put_side buy levels bk = (if buy then bk\<lparr>bids := levels\<rparr> else bk\<lparr>asks := levels\<rparr>)"

lemma book_side_order: "book_side (side_order buy)"
  using bid_side.book_side_axioms ask_side.book_side_axioms by (simp add: side_order_def)

lemma sorted_side: "heap_ok bk \<Longrightarrow> sorted_map (side_order buy) (side_levels (side_of_flag buy) bk)"
  by (simp add: heap_ok_def side_order_def side_of_flag_def)

lemma put_side_simps [simp]:
  "orders (put_side buy levels bk) = orders bk" "next_node (put_side buy levels bk) = next_node bk"
  "locate (put_side buy levels bk) = locate bk" "book_stats (put_side buy levels bk) = book_stats bk"
  by (simp_all add: put_side_def)

lemma side_levels_put:
  "side_levels sd ((put_side buy levels bk)\<lparr>orders := table, next_node := nn\<rparr>) =
     (if sd = side_of_flag buy then levels else side_levels sd bk)"
  by (cases sd) (simp_all add: put_side_def side_of_flag_def)

text \<open>Putting changed levels on a side changes one level and keeps the containers well formed.\<close>

lemma put_side_effect:
  assumes "heap_ok bk" and "replace_level p l (side_levels (side_of_flag buy) bk) levels"
    and "sorted_map (side_order buy) levels" and "nodes_ok nn l" and "next_node bk \<le> nn"
    and "table_ok table"
  shows "changes_level (side_of_flag buy) p l bk ((put_side buy levels bk)\<lparr>orders := table, next_node := nn\<rparr>)"
    and "heap_ok ((put_side buy levels bk)\<lparr>orders := table, next_node := nn\<rparr>)"
proof -
  let ?bk = "(put_side buy levels bk)\<lparr>orders := table, next_node := nn\<rparr>"
  show changes: "changes_level (side_of_flag buy) p l bk ?bk"
    using assms(2) by (simp add: changes_level_def side_levels_put)
  have "nodes_of_side_ok nn (side_levels sd ?bk)" for sd
    using nodes_changes [OF changes _ assms(5,4)] assms(1) by (simp add: heap_ok_def)
  moreover have "sorted_map bid_before (bids ?bk)" "sorted_map ask_before (asks ?bk)"
    using assms(1,3) by (simp_all add: put_side_def heap_ok_def side_order_def split: if_splits)
  ultimately show "heap_ok ?bk" using assms(6) by (simp add: heap_ok_def)
qed

lemma insert_on_side_put:
  "insert_on_side buy ref price shares bk =
     (let (levels, table) = insert_order (side_order buy) (next_node bk)
          (side_levels (side_of_flag buy) bk) (orders bk) (side_of_flag buy) ref price shares
      in (put_side buy levels bk)\<lparr>orders := table, next_node := Suc (next_node bk)\<rparr>)"
  by (simp add: insert_on_side_def put_side_def side_order_def side_of_flag_def split: prod.split)

lemma reduce_or_remove_put:
  assumes "table_find ref (orders bk) = Some loc" and "buy \<longleftrightarrow> ol_side loc = Buy"
  shows "reduce_or_remove b ref sr ra bk =
    map_run (\<lambda>(levels, table). (put_side buy levels bk)\<lparr>orders := table, next_node := next_node bk\<rparr>)
      (reduce_or_remove_in (side_order buy) b (side_levels (side_of_flag buy) bk) (orders bk) loc ref sr ra)"
  using assms
  by (auto simp: reduce_or_remove_def put_side_def side_order_def side_of_flag_def bind_run_def
      map_run_def split: sum.split)

text \<open>The level an insertion extends.\<close>

definition level_or_empty :: "levels \<Rightarrow> price_ticks \<Rightarrow> price_level" where
  "level_or_empty levels p = (case map_of levels p of None \<Rightarrow> empty_level | Some l \<Rightarrow> l)"

lemma nodes_ok_level_or_empty: "nodes_of_side_ok nn levels \<Longrightarrow> nodes_ok nn (level_or_empty levels p)"
  by (auto simp: level_or_empty_def nodes_of_side_ok_def nodes_ok_def empty_level_def
      split: option.split)

lemma total_level_or_empty:
  "side_levels_ok levels \<Longrightarrow>
     pl_total_shares (level_or_empty levels p) = level_shares (level_or_empty levels p)"
  by (auto simp: level_or_empty_def side_levels_ok_def level_ok_def empty_level_def level_shares_def
      split: option.split)

lemma insert_on_side_effect:
  assumes "heap_ok bk" and "insert_on_side buy ref price shares bk = bk'"
    and "sd = side_of_flag buy"
  shows "changes_level sd price
      (appended (next_node bk) ref shares (level_or_empty (side_levels sd bk) price)) bk bk'"
    and "orders bk' = table_emplace ref
      \<lparr>ol_side = sd, ol_price = price, ol_position = next_node bk\<rparr> (orders bk)"
    and "heap_ok bk'" and "next_node bk' = Suc (next_node bk)"
    and "locate bk' = locate bk" and "book_stats bk' = book_stats bk"
proof -
  let ?levels = "side_levels sd bk"
  let ?l = "appended (next_node bk) ref shares (level_or_empty ?levels price)"
  have sorted: "sorted_map (side_order buy) ?levels"
    using sorted_side [OF assms(1)] by (simp add: assms(3))
  obtain levels' table' where ins:
    "insert_order (side_order buy) (next_node bk) ?levels (orders bk) sd ref price shares = (levels', table')"
    by fastforce
  have bk': "bk' = (put_side buy levels' bk)\<lparr>orders := table', next_node := Suc (next_node bk)\<rparr>"
    using ins assms(2,3) by (simp add: insert_on_side_put)
  note level = book_side.insert_order_levels [OF book_side_order sorted ins]
  have "level_at (side_order buy) price ?levels = level_or_empty ?levels price"
    by (simp add: book_side.level_at_map_of [OF book_side_order sorted] level_or_empty_def)
  then have replaced: "replace_level price ?l (side_levels (side_of_flag buy) bk) levels'"
    using level(1) assms(3) by simp
  have nodes: "nodes_ok (Suc (next_node bk)) ?l"
    using assms(1) by (auto intro: nodes_ok_appended nodes_ok_level_or_empty simp: heap_ok_def)
  have "table_ok table'" using assms(1) by (simp add: level(3) heap_ok_def table.ok_emplace)
  note effect = put_side_effect [OF assms(1) replaced level(2) nodes le_SucI [OF order_refl] this]
  show "changes_level sd price ?l bk bk'" "heap_ok bk'"
    using effect assms(3) by (simp_all add: bk')
qed (use assms in \<open>auto simp: insert_on_side_put insert_order_def Let_def split: prod.splits\<close>)

lemma reduce_or_remove_effect:
  assumes "heap_ok bk" and "reduce_or_remove b ref sr ra bk = Inr bk'"
    and "table_find ref (orders bk) = Some loc"
  obtains sd l r removed gone where
    "sd = side_of_flag (ol_side loc = Buy)"
    "map_of (side_levels sd bk) (ol_price loc) = Some l"
    "(ol_position loc, r) \<in> set (pl_orders l)"
    "removed = (if ra then ro_shares r else sr)"
    "gone \<longleftrightarrow> ra \<or> ro_shares r - removed = 0"
    "changes_level sd (ol_price loc) (reduced (ol_position loc) r removed gone l) bk bk'"
    "orders bk' = (if gone then table_erase ref (orders bk) else orders bk)"
    "heap_ok bk'" "next_node bk' = next_node bk"
    "locate bk' = locate bk" "book_stats bk' = book_stats bk"
proof -
  define buy where "buy \<longleftrightarrow> ol_side loc = Buy"
  let ?levels = "side_levels (side_of_flag buy) bk"
  obtain levels' table' where red:
    "reduce_or_remove_in (side_order buy) b ?levels (orders bk) loc ref sr ra = Inr (levels', table')"
    and bk': "bk' = (put_side buy levels' bk)\<lparr>orders := table', next_node := next_node bk\<rparr>"
    using assms(2) by (auto simp: reduce_or_remove_put [OF assms(3) buy_def] map_run_Inr_iff)
  obtain l r removed gone where l: "map_of ?levels (ol_price loc) = Some l"
    and r: "map_of (pl_orders l) (ol_position loc) = Some r"
    and removed: "removed = (if ra then ro_shares r else sr)"
    and gone: "gone \<longleftrightarrow> ra \<or> ro_shares r - removed = 0"
    and level: "replace_level (ol_price loc) (reduced (ol_position loc) r removed gone l) ?levels levels'"
      "sorted_map (side_order buy) levels'"
    and table': "table' = (if gone then table_erase ref (orders bk) else orders bk)"
    by (rule book_side.reduce_or_remove_in_Inr [OF book_side_order sorted_side [OF assms(1)] red])
  have nodes: "nodes_ok (next_node bk) (reduced (ol_position loc) r removed gone l)"
    using assms(1) l by (auto simp: heap_ok_def nodes_of_side_ok_def intro: nodes_ok_reduced)
  have "table_ok table'" using assms(1) by (simp add: table' heap_ok_def table.ok_erase)
  note effect = put_side_effect [OF assms(1) level nodes order_refl this, folded bk']
  show thesis
    by (rule that [OF _ l map_of_SomeD [OF r] removed gone effect(1) _ effect(2)])
      (simp_all add: bk' buy_def table')
qed

section \<open>Insertion and removal keep the invariant\<close>

lemma rests_at_insert:
  assumes "heap_ok bk" and "insert_on_side buy ref price shares bk = bk'"
  shows "rests_at (side_levels sd bk') p n r \<longleftrightarrow>
    rests_at (side_levels sd bk) p n r \<or>
    sd = side_of_flag buy \<and> p = price \<and> n = next_node bk \<and>
      r = \<lparr>ro_order_reference = ref, ro_shares = shares\<rparr>"
proof -
  have "(n, r) \<in> set (pl_orders (level_or_empty levels p)) \<longleftrightarrow> rests_at levels p n r" for levels
    by (auto simp: level_or_empty_def rests_at_def empty_level_def split: option.split)
  then show ?thesis
    using rests_at_changes [OF insert_on_side_effect(1) [OF assms refl]]
    by (auto simp: appended_def)
qed

lemma insert_rep_ok:
  assumes "rep_ok bk" and "table_find ref (orders bk) = None"
  shows "rep_ok (insert_on_side buy ref price shares bk)"
proof -
  define bk' where "bk' = insert_on_side buy ref price shares bk"
  have heap: "heap_ok bk" using assms(1) by simp
  note effect = insert_on_side_effect [OF heap bk'_def [symmetric] refl]
  note rests = rests_at_insert [OF heap bk'_def [symmetric]]
  have old: "table_find ref' (orders bk) = Some loc \<longleftrightarrow>
      (\<exists>r. rests_at (side_levels (ol_side loc) bk) (ol_price loc) (ol_position loc) r \<and>
           ro_order_reference r = ref')" for ref' loc
    using assms(1) by (simp add: rep_ok_def linked_def)
  have "linked bk'"
    unfolding linked_def
  proof (intro allI)
    fix ref' loc
    show "table_find ref' (orders bk') = Some loc \<longleftrightarrow>
      (\<exists>r. rests_at (side_levels (ol_side loc) bk') (ol_price loc) (ol_position loc) r \<and>
           ro_order_reference r = ref')"
      using old [of ref' loc] old [of ref loc] assms(2)
      by (cases loc) (auto simp: effect(2) rests table.find_emplace)
  qed
  moreover have "side_levels_ok (side_levels sd bk')" for sd
    using side_levels_changes [OF effect(1)] assms(1)
    by (auto simp: rep_ok_def intro: level_shares_appended total_level_or_empty)
  ultimately show ?thesis
    using effect(3) by (simp add: rep_ok_def bk'_def)
qed

text \<open>A reference in the table leads to its order.\<close>

lemma rep_ok_locate:
  assumes "rep_ok bk" and "table_find ref (orders bk) = Some loc"
  obtains l r where "map_of (side_levels (ol_side loc) bk) (ol_price loc) = Some l"
    "(ol_position loc, r) \<in> set (pl_orders l)" "ro_order_reference r = ref"
    "map_of (pl_orders l) (ol_position loc) = Some r"
    "ol_side loc = side_of_flag (ol_side loc = Buy)" "nodes_ok (next_node bk) l"
proof -
  obtain r where r: "rests_at (side_levels (ol_side loc) bk) (ol_price loc) (ol_position loc) r"
    "ro_order_reference r = ref"
    using assms by (auto simp: rep_ok_def linked_def)
  then obtain l where l: "map_of (side_levels (ol_side loc) bk) (ol_price loc) = Some l"
    "(ol_position loc, r) \<in> set (pl_orders l)"
    by (auto simp: rests_at_def)
  then have nodes: "nodes_ok (next_node bk) l"
    using assms(1) by (auto simp: rep_ok_def heap_ok_def nodes_of_side_ok_def)
  have "ol_side loc = side_of_flag (ol_side loc = Buy)"
    using l(1) by (cases "ol_side loc") (simp_all add: side_of_flag_def)
  then show ?thesis
    using that l r(2) nodes by (simp add: nodes_ok_def)
qed

text \<open>No two orders share a node, and no two share a reference.\<close>

lemma rests_at_unique:
  assumes "heap_ok bk" and "rests_at (side_levels sd bk) p n r" and "rests_at (side_levels sd bk) p n r'"
  shows "r = r'"
proof -
  obtain l where "map_of (side_levels sd bk) p = Some l" "(n, r) \<in> set (pl_orders l)"
    "(n, r') \<in> set (pl_orders l)"
    using assms(2,3) by (auto simp: rests_at_def)
  moreover from this have "distinct (map fst (pl_orders l))"
    using assms(1) by (auto simp: heap_ok_def nodes_of_side_ok_def nodes_ok_def)
  ultimately show ?thesis by (metis eq_key_imp_eq_value)
qed

lemma rests_at_reduced:
  assumes "nodes_ok nn l" and "(it, r) \<in> set (pl_orders l)"
  shows "(n, r') \<in> set (pl_orders (reduced it r removed gone l)) \<longleftrightarrow>
    (if n = it then \<not> gone \<and> r' = r\<lparr>ro_shares := ro_shares r - removed\<rparr>
     else (n, r') \<in> set (pl_orders l))"
  using assms by (force simp: reduced_def nodes_ok_def set_store list_erase_def)

text \<open>The shares resting under a reference.\<close>

definition resting_shares :: "order_book \<Rightarrow> u64 \<Rightarrow> u32 option" where
  "resting_shares bk ref =
     (case table_find ref (orders bk) of
        None \<Rightarrow> None
      | Some loc \<Rightarrow>
         (case map_of (side_levels (ol_side loc) bk) (ol_price loc) of
            None \<Rightarrow> None
          | Some l \<Rightarrow> map_option ro_shares (map_of (pl_orders l) (ol_position loc))))"

definition may_reduce :: "order_book \<Rightarrow> u64 \<Rightarrow> u32 \<Rightarrow> bool" where
  "may_reduce bk ref n \<longleftrightarrow> (case resting_shares bk ref of None \<Rightarrow> True | Some s \<Rightarrow> n \<le> s)"

lemma resting_shares_located:
  assumes "rep_ok bk" and "table_find ref (orders bk) = Some loc"
    and "map_of (side_levels (ol_side loc) bk) (ol_price loc) = Some l"
    and "(ol_position loc, r) \<in> set (pl_orders l)"
  shows "resting_shares bk ref = Some (ro_shares r)"
proof -
  have "nodes_ok (next_node bk) l"
    using assms(1,3) by (auto simp: rep_ok_def heap_ok_def nodes_of_side_ok_def)
  then show ?thesis using assms by (simp add: resting_shares_def nodes_ok_def)
qed

lemma reduce_total:
  assumes "rep_ok bk" and "table_find ref (orders bk) = Some loc" and "ra \<or> may_reduce bk ref sr"
  shows "\<exists>bk'. reduce_or_remove b ref sr ra bk = Inr bk'"
proof -
  obtain l r where l: "map_of (side_levels (ol_side loc) bk) (ol_price loc) = Some l"
    and r: "(ol_position loc, r) \<in> set (pl_orders l)"
    and it: "map_of (pl_orders l) (ol_position loc) = Some r"
    and sd: "ol_side loc = side_of_flag (ol_side loc = Buy)"
    by (rule rep_ok_locate [OF assms(1,2)])
  have le: "ra \<or> sr \<le> ro_shares r"
    using assms(3) resting_shares_located [OF assms(1,2) l r] by (simp add: may_reduce_def)
  have "map_of (side_levels (side_of_flag (ol_side loc = Buy)) bk) (ol_price loc) = Some l"
    using l by (simp flip: sd)
  from book_side.reduce_or_remove_in_total [OF book_side_order
      sorted_side [OF rep_ok_heap [OF assms(1)]] this it le, of b "orders bk" ref]
  show ?thesis by (auto simp: reduce_or_remove_put [OF assms(2) refl])
qed

text \<open>After a removal or reduction, the links are those of the orders that are left.\<close>

lemma linked_reduced:
  fixes loc :: order_location
  assumes "linked bk" and "heap_ok bk"
    and "changes_level (ol_side loc) (ol_price loc) (reduced (ol_position loc) r removed gone l) bk bk'"
    and "map_of (side_levels (ol_side loc) bk) (ol_price loc) = Some l"
    and "(ol_position loc, r) \<in> set (pl_orders l)"
    and "orders bk' = (if gone then table_erase (ro_order_reference r) (orders bk) else orders bk)"
  shows "linked bk'"
  unfolding linked_def
proof (intro allI)
  fix ref' loc'
  have nodes: "nodes_ok (next_node bk) l"
    using assms(2,4) by (auto simp: heap_ok_def nodes_of_side_ok_def)
  have here: "rests_at (side_levels (ol_side loc) bk) (ol_price loc) (ol_position loc) r"
    using assms(4,5) by (auto simp: rests_at_def)
  have old: "table_find k (orders bk) = Some q \<longleftrightarrow>
      (\<exists>r. rests_at (side_levels (ol_side q) bk) (ol_price q) (ol_position q) r \<and>
           ro_order_reference r = k)" for k q
    using assms(1) by (simp add: linked_def)
  have at_loc: "table_find k (orders bk) = Some loc \<longleftrightarrow> ro_order_reference r = k" for k
    using old [of k loc] here rests_at_unique [OF assms(2) here] by blast
  have rests: "rests_at (side_levels (ol_side q) bk') (ol_price q) (ol_position q) r' \<longleftrightarrow>
      (if q = loc then \<not> gone \<and> r' = r\<lparr>ro_shares := ro_shares r - removed\<rparr>
       else rests_at (side_levels (ol_side q) bk) (ol_price q) (ol_position q) r')" for q r'
    using rests_at_changes [OF assms(3)] rests_at_reduced [OF nodes assms(5)] assms(4)
    by (auto simp: rests_at_def order_location.equality)
  show "table_find ref' (orders bk') = Some loc' \<longleftrightarrow>
    (\<exists>r. rests_at (side_levels (ol_side loc') bk') (ol_price loc') (ol_position loc') r \<and>
         ro_order_reference r = ref')"
    using at_loc [of ref'] at_loc [of "ro_order_reference r"] old [of ref' loc']
    by (cases "loc' = loc") (auto simp: rests assms(6) table.find_erase)
qed

text \<open>The effect of a removal or reduction on a book that keeps its invariant.\<close>

lemma rep_ok_reduce_effect:
  assumes "rep_ok bk" and "reduce_or_remove b ref sr ra bk = Inr bk'"
    and "table_find ref (orders bk) = Some loc"
  obtains l r removed gone where
    "map_of (side_levels (ol_side loc) bk) (ol_price loc) = Some l"
    "(ol_position loc, r) \<in> set (pl_orders l)" "ro_order_reference r = ref"
    "nodes_ok (next_node bk) l" "pl_total_shares l = level_shares l"
    "removed = (if ra then ro_shares r else sr)"
    "gone \<longleftrightarrow> ra \<or> ro_shares r - removed = 0"
    "changes_level (ol_side loc) (ol_price loc) (reduced (ol_position loc) r removed gone l) bk bk'"
    "orders bk' = (if gone then table_erase ref (orders bk) else orders bk)"
    "heap_ok bk'" "locate bk' = locate bk" "book_stats bk' = book_stats bk"
proof (rule reduce_or_remove_effect [OF rep_ok_heap [OF assms(1)] assms(2,3)])
  fix sd l r removed gone
  assume sd: "sd = side_of_flag (ol_side loc = Buy)"
    and l: "map_of (side_levels sd bk) (ol_price loc) = Some l"
    and r: "(ol_position loc, r) \<in> set (pl_orders l)"
    and rest: "removed = (if ra then ro_shares r else sr)" "gone \<longleftrightarrow> ra \<or> ro_shares r - removed = 0"
      "changes_level sd (ol_price loc) (reduced (ol_position loc) r removed gone l) bk bk'"
      "orders bk' = (if gone then table_erase ref (orders bk) else orders bk)" "heap_ok bk'"
      "locate bk' = locate bk" "book_stats bk' = book_stats bk"
  have side: "sd = ol_side loc" using rep_ok_locate [OF assms(1,3)] sd by metis
  have nodes: "nodes_ok (next_node bk) l" and total: "pl_total_shares l = level_shares l"
    using assms(1) l
    by (auto simp: rep_ok_def heap_ok_def nodes_of_side_ok_def side_levels_ok_def level_ok_def)
  have "ro_order_reference r = ref"
    by (rule rep_ok_locate [OF assms(1,3)])
      (use l r nodes side in \<open>metis eq_key_imp_eq_value nodes_ok_def option.inject\<close>)
  from that [OF l [unfolded side] r this nodes total rest(1,2) rest(3) [unfolded side] rest(4-7)]
  show thesis .
qed

lemma reduce_keeps_rep:
  assumes "rep_ok bk" and "table_find ref (orders bk) = Some loc" and "ra \<or> may_reduce bk ref sr"
    and "reduce_or_remove b ref sr ra bk = Inr bk'"
  shows "rep_ok bk'"
proof (rule rep_ok_reduce_effect [OF assms(1,4,2)])
  fix l r removed gone
  assume l: "map_of (side_levels (ol_side loc) bk) (ol_price loc) = Some l"
    and r: "(ol_position loc, r) \<in> set (pl_orders l)" "ro_order_reference r = ref"
    and level: "nodes_ok (next_node bk) l" "pl_total_shares l = level_shares l"
    and removed: "removed = (if ra then ro_shares r else sr)" "gone \<longleftrightarrow> ra \<or> ro_shares r - removed = 0"
    and changes: "changes_level (ol_side loc) (ol_price loc) (reduced (ol_position loc) r removed gone l) bk bk'"
    and table: "orders bk' = (if gone then table_erase ref (orders bk) else orders bk)"
    and heap': "heap_ok bk'"
  have "linked bk'"
    using linked_reduced [OF _ _ changes l r(1)] assms(1) table r(2) by (simp add: rep_ok_def)
  moreover have "removed \<le> ro_shares r"
    using assms(3) resting_shares_located [OF assms(1,2) l r(1)] by (auto simp: removed may_reduce_def)
  then have "pl_total_shares (reduced (ol_position loc) r removed gone l) =
      level_shares (reduced (ol_position loc) r removed gone l)"
    by (rule level_shares_reduced [OF level r(1)]) (auto simp: removed)
  then have "side_levels_ok (side_levels sd bk')" for sd
    using side_levels_changes [OF changes] assms(1) by (simp add: rep_ok_def)
  ultimately show ?thesis using heap' by (simp add: rep_ok_def)
qed

lemma reduce_rep_ok:
  assumes "rep_ok bk" and "ra \<or> may_reduce bk ref sr"
  shows "\<exists>bk'. reduce_or_remove b ref sr ra bk = Inr bk' \<and> rep_ok bk'"
proof (cases "table_find ref (orders bk)")
  case None
  then show ?thesis using assms(1) by (simp add: reduce_or_remove_def)
next
  case (Some loc)
  obtain bk' where bk': "reduce_or_remove b ref sr ra bk = Inr bk'"
    using reduce_total [OF assms(1) Some assms(2)] by blast
  moreover have "rep_ok bk'"
    using reduce_keeps_rep [OF assms(1) Some assms(2) bk'] .
  ultimately show ?thesis by blast
qed

end
