(* ===== verification/Book_Steps.thy ===== *)
theory Book_Steps
  imports Book_Invariant
begin

text \<open>
  The book's handlers as a whole: which messages a book can take (\<open>admissible\<close>), that every
  admissible message is handled without a fault and keeps the representation invariant, and
  what holds for every message. The parser's contracts are interpreted on the book's handler.
\<close>

section \<open>Admissible messages\<close>

text \<open>
  A feed never adds an order reference that is still resting and never executes or cancels
  more than rests. Messages for another locate are never a problem.
\<close>

definition mine :: "order_book \<Rightarrow> message_header \<Rightarrow> bool" where
  "mine bk h \<longleftrightarrow> stock_locate h = locate bk"

definition fresh :: "order_book \<Rightarrow> u64 \<Rightarrow> bool" where
  "fresh bk ref \<longleftrightarrow> table_find ref (orders bk) = None"

fun admissible :: "order_book \<Rightarrow> message \<Rightarrow> bool" where
  "admissible bk (AddOrder m) \<longleftrightarrow> mine bk (ao_header m) \<longrightarrow> fresh bk (ao_order_reference m)"
| "admissible bk (AddOrderWithMpid m) \<longleftrightarrow>
     mine bk (ao_header (am_order m)) \<longrightarrow> fresh bk (ao_order_reference (am_order m))"
| "admissible bk (OrderExecuted m) \<longleftrightarrow>
     mine bk (oe_header m) \<longrightarrow> may_reduce bk (oe_order_reference m) (oe_executed_shares m)"
| "admissible bk (OrderExecutedWithPrice m) \<longleftrightarrow>
     mine bk (oe_header (op_executed m)) \<longrightarrow>
     may_reduce bk (oe_order_reference (op_executed m)) (oe_executed_shares (op_executed m))"
| "admissible bk (OrderCancel m) \<longleftrightarrow>
     mine bk (oc_header m) \<longrightarrow> may_reduce bk (oc_order_reference m) (oc_cancelled_shares m)"
| "admissible bk (OrderReplace m) \<longleftrightarrow>
     mine bk (ore_header m) \<longrightarrow> \<not> fresh bk (ore_original_order_reference m) \<longrightarrow>
     ore_new_order_reference m = ore_original_order_reference m \<or>
     fresh bk (ore_new_order_reference m)"
| "admissible bk _ \<longleftrightarrow> True"

lemma orders_remove_all:
  assumes "heap_ok bk" and "reduce_or_remove b ref sr True bk = Inr bk'"
  shows "table_find k (orders bk') = (if k = ref then None else table_find k (orders bk))"
proof (cases "table_find ref (orders bk)")
  case None
  then show ?thesis using assms(2) by (auto simp: reduce_or_remove_def)
next
  case (Some loc)
  show ?thesis
    by (rule reduce_or_remove_effect [OF assms Some]) (simp add: table.find_erase)
qed

lemma book_add_rep_ok:
  assumes "rep_ok bk" and "mine bk (ao_header m) \<longrightarrow> fresh bk (ao_order_reference m)"
  shows "\<exists>bk'. book_add m bk = Inr bk' \<and> rep_ok bk'"
  using assms insert_rep_ok [OF assms(1), of "ao_order_reference m"]
  by (auto simp: book_add_def mine_def fresh_def Let_def)

lemma book_executed_rep_ok:
  assumes "rep_ok bk"
    and "mine bk (oe_header m) \<longrightarrow> may_reduce bk (oe_order_reference m) (oe_executed_shares m)"
  shows "\<exists>bk'. book_executed b m bk = Inr bk' \<and> rep_ok bk'"
  using assms reduce_rep_ok [OF assms(1), of False "oe_order_reference m" "oe_executed_shares m" b]
  by (auto simp: book_executed_def mine_def)

lemma book_cancel_rep_ok:
  assumes "rep_ok bk"
    and "mine bk (oc_header m) \<longrightarrow> may_reduce bk (oc_order_reference m) (oc_cancelled_shares m)"
  shows "\<exists>bk'. book_cancel b m bk = Inr bk' \<and> rep_ok bk'"
  using assms reduce_rep_ok [OF assms(1), of False "oc_order_reference m" "oc_cancelled_shares m" b]
  by (auto simp: book_cancel_def mine_def)

lemma book_delete_rep_ok:
  assumes "rep_ok bk"
  shows "\<exists>bk'. book_delete b m bk = Inr bk' \<and> rep_ok bk'"
  using assms reduce_rep_ok [OF assms(1), of True "od_order_reference m" 0 b]
  by (auto simp: book_delete_def)

lemma book_replace_rep_ok:
  assumes "rep_ok bk" and "admissible bk (OrderReplace m)"
  shows "\<exists>bk'. book_replace b m bk = Inr bk' \<and> rep_ok bk'"
proof (cases "mine bk (ore_header m) \<and> \<not> fresh bk (ore_original_order_reference m)")
  case False
  then show ?thesis
    using assms(1) by (auto simp: book_replace_def mine_def fresh_def split: option.split)
next
  case True
  then obtain loc where loc: "table_find (ore_original_order_reference m) (orders bk) = Some loc"
    by (auto simp: fresh_def)
  obtain bk1 where bk1: "reduce_or_remove b (ore_original_order_reference m) 0 True bk = Inr bk1"
    and ok: "rep_ok bk1"
    using reduce_rep_ok [OF assms(1), of True] by blast
  have "table_find (ore_new_order_reference m) (orders bk1) = None"
    using True assms(2) orders_remove_all [OF _ bk1] assms(1) by (auto simp: fresh_def)
  then show ?thesis
    using insert_rep_ok [OF ok] True
    by (auto simp: book_replace_def mine_def loc bk1 Let_def)
qed

lemma deliver_rep_ok:
  assumes "rep_ok bk" and "admissible bk m"
  shows "\<exists>bk'. deliver (book_handler b) m bk = Inr bk' \<and> rep_ok bk'"
proof (cases m)
  case (AddOrder x)
  then show ?thesis using assms book_add_rep_ok by (simp add: book_handler_def)
next
  case (AddOrderWithMpid x)
  then show ?thesis
    using assms book_add_rep_ok by (simp add: book_handler_def book_add_with_mpid_def)
next
  case (OrderExecuted x)
  then show ?thesis using assms book_executed_rep_ok by (simp add: book_handler_def)
next
  case (OrderExecutedWithPrice x)
  then show ?thesis
    using assms book_executed_rep_ok by (simp add: book_handler_def book_executed_with_price_def)
next
  case (OrderCancel x)
  then show ?thesis using assms book_cancel_rep_ok by (simp add: book_handler_def)
next
  case (OrderDelete x)
  then show ?thesis using assms book_delete_rep_ok by (simp add: book_handler_def)
next
  case (OrderReplace x)
  then show ?thesis using assms book_replace_rep_ok by (simp add: book_handler_def)
next
  case (TradeNonCross x)
  then show ?thesis using assms by (simp add: book_handler_def book_trade_def)
qed (use assms in \<open>simp_all add: book_handler_def\<close>)

section \<open>What holds for every message\<close>

text \<open>
  Whatever the feed sends, if a handler returns then the containers are still well formed,
  and the locate is the one the book was given.
\<close>

definition heap_at :: "u16 \<Rightarrow> order_book \<Rightarrow> bool" where
  "heap_at loc bk \<longleftrightarrow> heap_ok bk \<and> locate bk = loc"

lemma heap_at_stats [simp]: "heap_at loc (bk\<lparr>book_stats := st\<rparr>) = heap_at loc bk"
  by (simp add: heap_at_def)

lemma insert_heap_at: "heap_at loc bk \<Longrightarrow> heap_at loc (insert_on_side buy ref price shares bk)"
  using insert_on_side_effect [OF _ refl refl] by (simp add: heap_at_def)

lemma reduce_heap_at:
  assumes "heap_at loc bk" and "reduce_or_remove b ref sr ra bk = Inr bk'"
  shows "heap_at loc bk'"
proof (cases "table_find ref (orders bk)")
  case None
  then show ?thesis using assms by (simp add: reduce_or_remove_def)
next
  case (Some l)
  show ?thesis
    using assms(1)
    by (rule_tac reduce_or_remove_effect [OF _ assms(2) Some]) (simp_all add: heap_at_def)
qed

text \<open>
  The book changes by insertions, reductions and tallies only, so what these keep, every
  message keeps, and with it every file.
\<close>

locale book_preserved =
  fixes P :: "order_book \<Rightarrow> bool"
  assumes insert_keeps: "P bk \<Longrightarrow> P (insert_on_side buy ref price shares bk)"
    and reduce_keeps: "P bk \<Longrightarrow> reduce_or_remove b ref sr ra bk = Inr bk' \<Longrightarrow> P bk'"
    and stats_keep: "P (bk\<lparr>book_stats := st\<rparr>) = P bk"
begin

lemma deliver_keeps:
  assumes "P bk" and "deliver (book_handler b) m bk = Inr bk'"
  shows "P bk'"
  using assms
  by (cases m)
    (auto simp: book_handler_def book_add_def book_add_with_mpid_def book_executed_def
      book_executed_with_price_def book_cancel_def book_delete_def book_replace_def book_trade_def
      bind_run_Inr_iff Let_def insert_keeps stats_keep
      split: if_splits option.splits dest: reduce_keeps)

lemma run_keeps:
  assumes "fold_run (deliver (book_handler b)) ms bk = Inr bk'" and "P bk"
  shows "P bk'"
  using assms by (rule fold_run_invariant) (rule deliver_keeps)

end

sublocale book_preserved \<subseteq> kept: invariant_handler "book_handler b" P for b
  by unfold_locales (rule deliver_keeps)

interpretation book_heap: book_preserved "heap_at loc" for loc
  by unfold_locales (simp_all add: insert_heap_at reduce_heap_at)

end
