(* ===== verification/Book_Check.thy ===== *)
theory Book_Check
  imports Book_Steps
begin

text \<open>
  \<open>check_rep\<close> decides the representation invariant. Its loops check that every queued order
  is in the lookup table at its own position, and compare the number of orders with the
  size of the table; since positions are distinct, the two together say that the table
  holds the queued orders and nothing else.
\<close>

section \<open>What the loops compute\<close>

definition entry :: "side \<Rightarrow> price_ticks \<Rightarrow> node \<times> resting_order \<Rightarrow> u64 \<times> order_location" where
  "entry sd p = (\<lambda>(it, r).
     (ro_order_reference r, \<lparr>ol_side = sd, ol_price = p, ol_position = it\<rparr>))"

definition entries :: "side \<Rightarrow> levels \<Rightarrow> (u64 \<times> order_location) list" where
  "entries sd levels = concat (map (\<lambda>(p, l). map (entry sd p) (pl_orders l)) levels)"

definition in_table :: "order_table \<Rightarrow> u64 \<times> order_location \<Rightarrow> bool" where
  "in_table table e \<longleftrightarrow> table_find (fst e) table = Some (snd e)"

lemma check_queue_eq:
  "check_queue table sd p q summed n =
     (if \<forall>x \<in> set q. in_table table (entry sd p x)
      then Some (summed + sum_list (map (\<lambda>(n, r). ucast (ro_shares r)) q), n + length q)
      else None)"
proof (induction q arbitrary: summed n)
  case Nil
  then show ?case by simp
next
  case (Cons x q)
  obtain it r where x: "x = (it, r)" by fastforce
  have "in_table table (entry sd p x) \<longleftrightarrow>
      (\<exists>loc. table_find (ro_order_reference r) table = Some loc \<and>
        ol_side loc = sd \<and> ol_price loc = p \<and> ol_position loc = it)"
    by (auto simp: in_table_def entry_def x)
  then show ?case
    by (auto simp: x Cons.IH Let_def add.assoc split: option.split)
qed

lemma check_side_eq:
  "check_side table sd levels n =
     (if (\<forall>(p, l) \<in> set levels. level_ok l) \<and> (\<forall>e \<in> set (entries sd levels). in_table table e)
      then Some (n + length (entries sd levels)) else None)"
proof (induction levels arbitrary: n)
  case Nil
  then show ?case by (simp add: entries_def)
next
  case (Cons x levels)
  obtain p l where x: "x = (p, l)" by fastforce
  have "entries sd (x # levels) = map (entry sd p) (pl_orders l) @ entries sd levels"
    by (simp add: entries_def x)
  then show ?case
    by (auto simp: x Cons.IH check_queue_eq level_ok_def level_shares_def)
qed

definition book_entries :: "order_book \<Rightarrow> (u64 \<times> order_location) list" where
  "book_entries bk = entries Buy (bids bk) @ entries Sell (asks bk)"

lemma check_rep_eq:
  "check_rep bk \<longleftrightarrow>
     (\<forall>(p, l) \<in> set (bids bk) \<union> set (asks bk). level_ok l) \<and>
     (\<forall>e \<in> set (book_entries bk). in_table (orders bk) e) \<and>
     length (book_entries bk) = length (orders bk)"
  by (auto simp: check_rep_def check_side_eq book_entries_def)

section \<open>Under the containers' guarantees\<close>

lemma distinct_levels:
  assumes "heap_ok bk"
  shows "distinct (map fst (bids bk))" "distinct (map fst (asks bk))"
  using assms bid_order.distinct_sorted ask_order.distinct_sorted by (auto simp: heap_ok_def)

lemma set_entries:
  assumes "distinct (map fst levels)"
  shows "(ref, loc) \<in> set (entries sd levels) \<longleftrightarrow>
    ol_side loc = sd \<and>
    (\<exists>r. rests_at levels (ol_price loc) (ol_position loc) r \<and> ro_order_reference r = ref)"
  using assms
  by (cases loc) (force simp: entries_def entry_def rests_at_def)

lemma set_book_entries:
  assumes "heap_ok bk"
  shows "(ref, loc) \<in> set (book_entries bk) \<longleftrightarrow>
    (\<exists>r. rests_at (side_levels (ol_side loc) bk) (ol_price loc) (ol_position loc) r \<and>
         ro_order_reference r = ref)"
  using distinct_levels [OF assms]
  by (cases "ol_side loc") (auto simp: book_entries_def set_entries rests_at_def)

lemma distinct_entries_of_side:
  assumes "distinct (map fst levels)" and "nodes_of_side_ok nn levels"
  shows "distinct (map snd (entries sd levels))"
  using assms
proof (induction levels)
  case Nil
  then show ?case by (simp add: entries_def)
next
  case (Cons x levels)
  obtain p l where x: "x = (p, l)" by fastforce
  have "map_of (x # levels) q = Some l'" if "map_of levels q = Some l'" for q l'
    using that Cons.prems(1) imageI [OF map_of_SomeD [OF that], of fst] by (auto simp: x)
  then have "nodes_of_side_ok nn levels"
    using Cons.prems(2) by (auto simp: nodes_of_side_ok_def)
  then have "distinct (map snd (entries sd levels))" using Cons by simp
  moreover have "nodes_ok nn l"
    using Cons.prems(2) by (auto simp: nodes_of_side_ok_def x split: if_splits)
  then have "distinct (map (\<lambda>it. \<lparr>ol_side = sd, ol_price = p, ol_position = it\<rparr>)
      (map fst (pl_orders l)))"
    by (subst distinct_map) (simp add: nodes_ok_def inj_on_def)
  then have "distinct (map (snd \<circ> entry sd p) (pl_orders l))"
    by (simp add: entry_def comp_def case_prod_beta)
  moreover have "ol_price loc \<noteq> p" if "loc \<in> set (map snd (entries sd levels))" for loc
    using that Cons.prems(1) by (force simp: x entries_def entry_def)
  moreover have "ol_price loc = p" if "loc \<in> set (map (snd \<circ> entry sd p) (pl_orders l))" for loc
    using that by (auto simp: entry_def)
  ultimately have "distinct (map (snd \<circ> entry sd p) (pl_orders l) @ map snd (entries sd levels))"
    unfolding distinct_append by blast
  then show ?case by (simp add: x entries_def)
qed

lemma distinct_book_entries:
  assumes "heap_ok bk"
  shows "distinct (map snd (book_entries bk))"
proof -
  have "nodes_of_side_ok (next_node bk) (side_levels sd bk)" for sd
    using assms by (simp add: heap_ok_def)
  from this [of Buy] this [of Sell]
  have "distinct (map snd (entries Buy (bids bk)))" "distinct (map snd (entries Sell (asks bk)))"
    using distinct_levels [OF assms] by (auto intro: distinct_entries_of_side)
  moreover have "ol_side loc = sd" if "loc \<in> set (map snd (entries sd levels))" for loc sd levels
    using that by (auto simp: entries_def entry_def)
  ultimately show ?thesis
    by (simp add: book_entries_def) (metis disjoint_iff list.set_map side.distinct(1))
qed

lemma in_table_iff: "heap_ok bk \<Longrightarrow> in_table (orders bk) e \<longleftrightarrow> e \<in> set (orders bk)"
  by (cases e) (simp add: in_table_def table_find_def heap_ok_def table_ok_def)

lemma linked_iff: "heap_ok bk \<Longrightarrow> linked bk \<longleftrightarrow> set (book_entries bk) = set (orders bk)"
  using in_table_iff [of bk]
  by (auto simp: linked_def set_book_entries [symmetric] in_table_def set_eq_iff)

text \<open>A list of distinct entries inside the table is the table when it is as long.\<close>

lemma count_entries:
  assumes "heap_ok bk" and "\<forall>e \<in> set (book_entries bk). in_table (orders bk) e"
  shows "length (book_entries bk) = length (orders bk) \<longleftrightarrow> set (book_entries bk) = set (orders bk)"
proof -
  have "distinct (book_entries bk)"
    using distinct_book_entries [OF assms(1)] by (simp add: distinct_map)
  then have "card (set (book_entries bk)) = length (book_entries bk)" by (rule distinct_card)
  moreover have "distinct (orders bk)"
    using assms(1) by (simp add: heap_ok_def table_ok_def distinct_map)
  then have "card (set (orders bk)) = length (orders bk)" by (rule distinct_card)
  moreover have "set (book_entries bk) \<subseteq> set (orders bk)"
    using assms in_table_iff by blast
  ultimately show ?thesis by (metis List.finite_set card_subset_eq)
qed

lemma side_levels_ok_iff:
  assumes "heap_ok bk"
  shows "(\<forall>(p, l) \<in> set (bids bk) \<union> set (asks bk). level_ok l) \<longleftrightarrow>
    (\<forall>sd. side_levels_ok (side_levels sd bk))"
proof -
  have "(\<forall>sd. side_levels_ok (side_levels sd bk)) \<longleftrightarrow>
      side_levels_ok (bids bk) \<and> side_levels_ok (asks bk)"
    by (metis side.exhaust side_levels.simps side_levels_ok_def map_of.simps(1) option.distinct(1))
  then show ?thesis
    using distinct_levels [OF assms] by (auto simp: side_levels_ok_def)
qed

lemma check_rep_iff:
  assumes "heap_ok bk"
  shows "check_rep bk \<longleftrightarrow> rep_ok bk"
proof -
  have "(\<forall>e \<in> set (book_entries bk). in_table (orders bk) e) \<and>
      length (book_entries bk) = length (orders bk) \<longleftrightarrow> linked bk"
    using count_entries [OF assms] linked_iff [OF assms] in_table_iff [OF assms] by auto
  then show ?thesis
    using assms by (simp add: check_rep_eq rep_ok_def side_levels_ok_iff)
qed

end
