(* ===== verification/Book_Spec.thy ===== *)
theory Book_Spec
  imports Book_Check
begin

text \<open>
  The abstract book: the orders of one symbol in order of arrival, nothing else. Price-time
  priority is read off that list: the queue of a price is the sublist of its orders, the
  best bid is the highest price with an order, its size the sum over its queue. The theorems
  show that the C++ book, with its levels, iterators, totals and lookup table, implements
  this list on every feed that the abstract book admits.
\<close>

section \<open>The abstract book\<close>

record spec_order =
  so_reference :: u64
  so_side :: side
  so_price :: price_ticks
  so_shares :: u32

record spec_book =
  sp_orders :: "spec_order list"
  sp_stats :: stats

definition spec_add :: "side \<Rightarrow> u64 \<Rightarrow> price_ticks \<Rightarrow> u32 \<Rightarrow> spec_order list \<Rightarrow> spec_order list" where
  "spec_add sd ref p n ab =
     ab @ [\<lparr>so_reference = ref, so_side = sd, so_price = p, so_shares = n\<rparr>]"

text \<open>What is left of an order: \<open>None\<close> when it goes.\<close>

definition left_after :: "bool \<Rightarrow> u32 \<Rightarrow> u32 \<Rightarrow> u32 option" where
  "left_after all n s = (if all \<or> s = n then None else Some (s - n))"

definition spec_edit :: "u64 \<Rightarrow> (u32 \<Rightarrow> u32 option) \<Rightarrow> spec_order list \<Rightarrow> spec_order list" where
  "spec_edit ref f ab =
     concat (map (\<lambda>x. if so_reference x = ref
       then (case f (so_shares x) of None \<Rightarrow> [] | Some s \<Rightarrow> [x\<lparr>so_shares := s\<rparr>])
       else [x]) ab)"

definition spec_find :: "u64 \<Rightarrow> spec_order list \<Rightarrow> spec_order option" where
  "spec_find ref ab = find (\<lambda>x. so_reference x = ref) ab"

definition spec_side :: "side \<Rightarrow> side" where
  "spec_side sd = side_of_flag (sd = Buy)"

definition spec_add_step :: "u16 \<Rightarrow> add_order \<Rightarrow> spec_book \<Rightarrow> spec_book" where
  "spec_add_step loc m s =
     (if stock_locate (ao_header m) \<noteq> loc then s
      else \<lparr>sp_orders = spec_add (spec_side (ao_side m)) (ao_order_reference m) (ao_price m)
              (ao_shares m) (sp_orders s),
            sp_stats = (sp_stats s)\<lparr>adds := adds (sp_stats s) + 1\<rparr>\<rparr>)"

definition spec_executed_step :: "u16 \<Rightarrow> order_executed \<Rightarrow> spec_book \<Rightarrow> spec_book" where
  "spec_executed_step loc m s =
     (if stock_locate (oe_header m) \<noteq> loc then s
      else \<lparr>sp_orders = spec_edit (oe_order_reference m)
              (left_after False (oe_executed_shares m)) (sp_orders s),
            sp_stats = (sp_stats s)\<lparr>executions := executions (sp_stats s) + 1\<rparr>\<rparr>)"

definition spec_cancel_step :: "u16 \<Rightarrow> order_cancel \<Rightarrow> spec_book \<Rightarrow> spec_book" where
  "spec_cancel_step loc m s =
     (if stock_locate (oc_header m) \<noteq> loc then s
      else \<lparr>sp_orders = spec_edit (oc_order_reference m)
              (left_after False (oc_cancelled_shares m)) (sp_orders s),
            sp_stats = (sp_stats s)\<lparr>cancels := cancels (sp_stats s) + 1\<rparr>\<rparr>)"

definition spec_delete_step :: "u16 \<Rightarrow> order_delete \<Rightarrow> spec_book \<Rightarrow> spec_book" where
  "spec_delete_step loc m s =
     (if stock_locate (od_header m) \<noteq> loc then s
      else \<lparr>sp_orders = spec_edit (od_order_reference m) (left_after True 0) (sp_orders s),
            sp_stats = (sp_stats s)\<lparr>deletes := deletes (sp_stats s) + 1\<rparr>\<rparr>)"

definition spec_replace_step :: "u16 \<Rightarrow> order_replace \<Rightarrow> spec_book \<Rightarrow> spec_book" where
  "spec_replace_step loc m s =
     (if stock_locate (ore_header m) \<noteq> loc then s
      else case spec_find (ore_original_order_reference m) (sp_orders s) of
        None \<Rightarrow> s
      | Some x \<Rightarrow>
          \<lparr>sp_orders = spec_add (so_side x) (ore_new_order_reference m) (ore_price m) (ore_shares m)
             (spec_edit (ore_original_order_reference m) (left_after True 0) (sp_orders s)),
           sp_stats = (sp_stats s)\<lparr>replaces := replaces (sp_stats s) + 1\<rparr>\<rparr>)"

fun spec_step :: "u16 \<Rightarrow> message \<Rightarrow> spec_book \<Rightarrow> spec_book" where
  "spec_step loc (AddOrder m) s = spec_add_step loc m s"
| "spec_step loc (AddOrderWithMpid m) s = spec_add_step loc (am_order m) s"
| "spec_step loc (OrderExecuted m) s = spec_executed_step loc m s"
| "spec_step loc (OrderExecutedWithPrice m) s = spec_executed_step loc (op_executed m) s"
| "spec_step loc (OrderCancel m) s = spec_cancel_step loc m s"
| "spec_step loc (OrderDelete m) s = spec_delete_step loc m s"
| "spec_step loc (OrderReplace m) s = spec_replace_step loc m s"
| "spec_step loc (TradeNonCross m) s =
     (if stock_locate (tr_header m) = loc
      then s\<lparr>sp_stats := (sp_stats s)\<lparr>trades := trades (sp_stats s) + 1\<rparr>\<rparr> else s)"
| "spec_step loc _ s = s"

fun spec_run :: "u16 \<Rightarrow> message list \<Rightarrow> spec_book \<Rightarrow> spec_book" where
  "spec_run loc [] s = s"
| "spec_run loc (m # ms) s = spec_run loc ms (spec_step loc m s)"

definition spec_initial :: spec_book where
  "spec_initial = \<lparr>sp_orders = [], sp_stats = initial_stats\<rparr>"

text \<open>Which messages the abstract book admits.\<close>

definition spec_fresh :: "u64 \<Rightarrow> spec_order list \<Rightarrow> bool" where
  "spec_fresh ref ab \<longleftrightarrow> ref \<notin> so_reference ` set ab"

definition spec_may_reduce :: "u64 \<Rightarrow> u32 \<Rightarrow> spec_order list \<Rightarrow> bool" where
  "spec_may_reduce ref n ab \<longleftrightarrow> (\<forall>x \<in> set ab. so_reference x = ref \<longrightarrow> n \<le> so_shares x)"

fun spec_admits :: "u16 \<Rightarrow> spec_order list \<Rightarrow> message \<Rightarrow> bool" where
  "spec_admits loc ab (AddOrder m) \<longleftrightarrow>
     stock_locate (ao_header m) = loc \<longrightarrow> spec_fresh (ao_order_reference m) ab"
| "spec_admits loc ab (AddOrderWithMpid m) \<longleftrightarrow>
     stock_locate (ao_header (am_order m)) = loc \<longrightarrow>
     spec_fresh (ao_order_reference (am_order m)) ab"
| "spec_admits loc ab (OrderExecuted m) \<longleftrightarrow>
     stock_locate (oe_header m) = loc \<longrightarrow>
     spec_may_reduce (oe_order_reference m) (oe_executed_shares m) ab"
| "spec_admits loc ab (OrderExecutedWithPrice m) \<longleftrightarrow>
     stock_locate (oe_header (op_executed m)) = loc \<longrightarrow>
     spec_may_reduce (oe_order_reference (op_executed m)) (oe_executed_shares (op_executed m)) ab"
| "spec_admits loc ab (OrderCancel m) \<longleftrightarrow>
     stock_locate (oc_header m) = loc \<longrightarrow>
     spec_may_reduce (oc_order_reference m) (oc_cancelled_shares m) ab"
| "spec_admits loc ab (OrderReplace m) \<longleftrightarrow>
     stock_locate (ore_header m) = loc \<longrightarrow> \<not> spec_fresh (ore_original_order_reference m) ab \<longrightarrow>
     ore_new_order_reference m = ore_original_order_reference m \<or>
     spec_fresh (ore_new_order_reference m) ab"
| "spec_admits loc ab _ \<longleftrightarrow> True"

fun spec_admits_all :: "u16 \<Rightarrow> spec_book \<Rightarrow> message list \<Rightarrow> bool" where
  "spec_admits_all loc s [] \<longleftrightarrow> True"
| "spec_admits_all loc s (m # ms) \<longleftrightarrow>
     spec_admits loc (sp_orders s) m \<and> spec_admits_all loc (spec_step loc m s) ms"

lemma spec_step_foreign: "stock_locate (message_header m) \<noteq> loc \<Longrightarrow> spec_step loc m s = s"
  by (cases m)
    (simp_all add: spec_add_step_def spec_executed_step_def spec_cancel_step_def
      spec_delete_step_def spec_replace_step_def)

section \<open>Reading the abstract book\<close>

definition spec_queue :: "side \<Rightarrow> price_ticks \<Rightarrow> spec_order list \<Rightarrow> (u64 \<times> u32) list" where
  "spec_queue sd p ab =
     map (\<lambda>x. (so_reference x, so_shares x)) (filter (\<lambda>x. so_side x = sd \<and> so_price x = p) ab)"

definition spec_prices :: "side \<Rightarrow> spec_order list \<Rightarrow> price_ticks set" where
  "spec_prices sd ab = so_price ` {x \<in> set ab. so_side x = sd}"

text \<open>Total shares at a price, as an unbounded number.\<close>

definition spec_depth :: "side \<Rightarrow> price_ticks \<Rightarrow> spec_order list \<Rightarrow> nat" where
  "spec_depth sd p ab = sum_list (map (unat \<circ> snd) (spec_queue sd p ab))"

definition edit_queue :: "u64 \<Rightarrow> (u32 \<Rightarrow> u32 option) \<Rightarrow> (u64 \<times> u32) list \<Rightarrow> (u64 \<times> u32) list" where
  "edit_queue ref f q =
     concat (map (\<lambda>(x, s). if x = ref
       then (case f s of None \<Rightarrow> [] | Some s' \<Rightarrow> [(x, s')]) else [(x, s)]) q)"

lemma spec_queue_add:
  "spec_queue sd' p' (spec_add sd ref p n ab) =
     (if sd' = sd \<and> p' = p then spec_queue sd p ab @ [(ref, n)] else spec_queue sd' p' ab)"
  by (simp add: spec_queue_def spec_add_def)

lemma spec_queue_edit: "spec_queue sd p (spec_edit ref f ab) = edit_queue ref f (spec_queue sd p ab)"
  by (induction ab) (auto simp: spec_queue_def spec_edit_def edit_queue_def split: option.split)

lemma set_spec_queue:
  "(ref, n) \<in> set (spec_queue sd p ab) \<longleftrightarrow>
     (\<exists>x \<in> set ab. so_reference x = ref \<and> so_shares x = n \<and> so_side x = sd \<and> so_price x = p)"
  by (force simp: spec_queue_def)

lemma references_edit: "so_reference ` set (spec_edit ref f ab) \<subseteq> so_reference ` set ab"
  by (auto simp: spec_edit_def split: option.splits if_splits)

lemma references_remove:
  "so_reference ` set (spec_edit ref (left_after True n) ab) = so_reference ` set ab - {ref}"
  by (auto simp: spec_edit_def left_after_def image_iff split: if_splits)

lemma distinct_edit:
  "distinct (map so_reference ab) \<Longrightarrow> distinct (map so_reference (spec_edit ref f ab))"
proof (induction ab)
  case (Cons x ab)
  then show ?case
    using references_edit [of ref f ab] by (auto simp: spec_edit_def split: option.split)
qed (simp add: spec_edit_def)

lemma spec_find_distinct:
  "distinct (map so_reference ab) \<Longrightarrow> x \<in> set ab \<Longrightarrow> so_reference x = ref \<Longrightarrow>
     spec_find ref ab = Some x"
  by (induction ab) (auto simp: spec_find_def image_iff)

lemma spec_find_None: "spec_find ref ab = None \<longleftrightarrow> spec_fresh ref ab"
  by (auto simp: spec_find_def find_None_iff spec_fresh_def)

lemma spec_edit_absent: "spec_fresh ref ab \<Longrightarrow> spec_edit ref f ab = ab"
  by (induction ab) (auto simp: spec_fresh_def spec_edit_def)

lemma spec_edit_Nil [simp]: "spec_edit ref f [] = []"
  by (simp add: spec_edit_def)

lemma spec_edit_Cons:
  "spec_edit ref f (x # ab) =
     (if so_reference x = ref
      then (case f (so_shares x) of None \<Rightarrow> [] | Some n \<Rightarrow> [x\<lparr>so_shares := n\<rparr>]) else [x]) @
     spec_edit ref f ab"
  by (simp add: spec_edit_def)

end
