(* ===== verification/Book_Refinement.thy ===== *)
theory Book_Refinement
  imports Book_Spec
begin

text \<open>
  The order book refines the abstract book: every operation of the C++ book has the effect
  of the abstract operation on the queues of all prices, so a run over an admitted feed ends
  in a state that represents the abstract run. The observations of the book (best levels,
  counts, totals) are then those of the abstract list.
\<close>

section \<open>The effect of the operations on the queues\<close>

lemma queue_at_insert:
  assumes "heap_ok bk" and "insert_on_side buy ref price shares bk = bk'"
  shows "queue_at (side_levels sd bk') p =
    (if sd = side_of_flag buy \<and> p = price then queue_at (side_levels sd bk) p @ [(ref, shares)]
     else queue_at (side_levels sd bk) p)"
proof -
  have "map order_view (pl_orders (appended nn ref shares (level_or_empty levels q))) =
      queue_at levels q @ [(ref, shares)]" for nn levels q
    by (simp add: appended_def level_or_empty_def queue_at_def order_view_def empty_level_def
        split: option.split)
  then show ?thesis
    using queue_at_changes [OF insert_on_side_effect(1) [OF assms refl]] by simp
qed

lemma set_queue_at:
  "(ref, n) \<in> set (queue_at levels p) \<longleftrightarrow>
     (\<exists>it r. rests_at levels p it r \<and> ro_order_reference r = ref \<and> ro_shares r = n)"
  by (force simp: queue_at_def rests_at_def order_view_def split: option.split)

lemma queue_member_in_table:
  assumes "rep_ok bk" and "rests_at (side_levels sd bk) p it r"
  shows "table_find (ro_order_reference r) (orders bk) =
    Some \<lparr>ol_side = sd, ol_price = p, ol_position = it\<rparr>"
  using assms by (force simp: rep_ok_def linked_def)

lemma edit_queue_absent:
  "ref \<notin> fst ` set q \<Longrightarrow> edit_queue ref f q = q"
  by (induction q) (auto simp: edit_queue_def)

text \<open>Within a level, the order of a reference is the one at its iterator.\<close>

lemma queue_reduced:
  assumes "\<And>n r'. (n, r') \<in> set q \<Longrightarrow> n = it \<longleftrightarrow> ro_order_reference r' = ref"
    and "(it, r) \<in> set q" and "distinct (map fst q)"
    and "f (ro_shares r) = (if gone then None else Some (ro_shares r - removed))"
  shows "map order_view
      (if gone then list_erase it q
       else list_store it (r\<lparr>ro_shares := ro_shares r - removed\<rparr>) q) =
    edit_queue ref f (map order_view q)"
proof -
  have r: "r' = r" if "(it, r') \<in> set q" for r'
    using that assms(2,3) by (metis eq_key_imp_eq_value)
  have "map order_view
      (if gone then list_erase it xs
       else list_store it (r\<lparr>ro_shares := ro_shares r - removed\<rparr>) xs) =
    edit_queue ref f (map order_view xs)" if "set xs \<subseteq> set q" for xs
    using that
  proof (induction xs)
    case Nil
    then show ?case by (simp add: edit_queue_def list_erase_def list_store_def)
  next
    case (Cons x xs)
    obtain n r' where x: "x = (n, r')" by fastforce
    have "n = it \<longleftrightarrow> ro_order_reference r' = ref" and "n = it \<longrightarrow> r' = r"
      using Cons.prems assms(1) r by (auto simp: x)
    moreover have "ro_order_reference r = ref" using assms(1,2) by blast
    ultimately show ?case
      using Cons assms(4)
      by (auto simp: x edit_queue_def list_erase_def list_store_def order_view_def
          split: if_splits)
  qed
  then show ?thesis by blast
qed

lemma absent_from_queue:
  assumes "rep_ok bk" and "\<And>it. table_find ref (orders bk) \<noteq>
      Some \<lparr>ol_side = sd, ol_price = p, ol_position = it\<rparr>"
  shows "edit_queue ref f (queue_at (side_levels sd bk) p) = queue_at (side_levels sd bk) p"
proof (rule edit_queue_absent)
  show "ref \<notin> fst ` set (queue_at (side_levels sd bk) p)"
    using queue_member_in_table [OF assms(1)] assms(2) by (force simp: set_queue_at)
qed

text \<open>The queue of the level an order is removed from or reduced in.\<close>

lemma queue_of_reduced:
  fixes loc :: order_location
  assumes "rep_ok bk" and "map_of (side_levels (ol_side loc) bk) (ol_price loc) = Some l"
    and "(ol_position loc, r) \<in> set (pl_orders l)" and "nodes_ok n l"
    and "f (ro_shares r) = (if gone then None else Some (ro_shares r - removed))"
  shows "map order_view (pl_orders (reduced (ol_position loc) r removed gone l)) =
    edit_queue (ro_order_reference r) f (map order_view (pl_orders l))"
proof -
  have found: "table_find (ro_order_reference r') (orders bk) =
      Some \<lparr>ol_side = ol_side loc, ol_price = ol_price loc, ol_position = it\<rparr>"
    if "(it, r') \<in> set (pl_orders l)" for it r'
    using that assms(2) by (intro queue_member_in_table [OF assms(1)]) (auto simp: rests_at_def)
  have nodes: "distinct (map fst (pl_orders l))" using assms(4) by (simp add: nodes_ok_def)
  have "it = ol_position loc \<longleftrightarrow> ro_order_reference r' = ro_order_reference r"
    if "(it, r') \<in> set (pl_orders l)" for it r'
    using found [OF that] found [OF assms(3)] that assms(3) nodes
    by (auto dest: eq_key_imp_eq_value)
  from queue_reduced [where q = "pl_orders l" and f = f and gone = gone and removed = removed,
      OF this assms(3) nodes assms(5)]
  show ?thesis by (simp add: reduced_def)
qed

lemma queue_at_reduce:
  assumes "rep_ok bk" and "reduce_or_remove b ref sr ra bk = Inr bk'"
  shows "queue_at (side_levels sd bk') p =
    edit_queue ref (left_after ra sr) (queue_at (side_levels sd bk) p)"
proof (cases "table_find ref (orders bk)")
  case None
  then show ?thesis
    using assms by (simp add: reduce_or_remove_def absent_from_queue)
next
  case (Some loc)
  obtain l r removed gone where l: "map_of (side_levels (ol_side loc) bk) (ol_price loc) = Some l"
    and r: "(ol_position loc, r) \<in> set (pl_orders l)" "ro_order_reference r = ref"
    and nodes: "nodes_ok (next_node bk) l"
    and removed: "removed = (if ra then ro_shares r else sr)" "gone \<longleftrightarrow> ra \<or> ro_shares r - removed = 0"
    and changes: "changes_level (ol_side loc) (ol_price loc) (reduced (ol_position loc) r removed gone l) bk bk'"
    by (rule rep_ok_reduce_effect [OF assms Some])
  show ?thesis
  proof (cases "sd = ol_side loc \<and> p = ol_price loc")
    case False
    then have "edit_queue ref (left_after ra sr) (queue_at (side_levels sd bk) p) =
        queue_at (side_levels sd bk) p"
      using Some by (intro absent_from_queue [OF assms(1)]) auto
    then show ?thesis using False by (auto simp: queue_at_changes [OF changes])
  next
    case True
    have "left_after ra sr (ro_shares r) = (if gone then None else Some (ro_shares r - removed))"
      by (auto simp: left_after_def removed)
    from queue_of_reduced [where f = "left_after ra sr" and gone = gone and removed = removed,
        OF assms(1) l r(1) nodes this]
    show ?thesis
      using True l by (simp add: queue_at_changes [OF changes] r(2)) (simp add: queue_at_def)
  qed
qed

section \<open>Refinement of the messages\<close>

definition represents :: "u16 \<Rightarrow> order_book \<Rightarrow> spec_book \<Rightarrow> bool" where
  "represents loc bk s \<longleftrightarrow>
     rep_ok bk \<and> locate bk = loc \<and> book_stats bk = sp_stats s \<and>
     distinct (map so_reference (sp_orders s)) \<and>
     (\<forall>sd p. queue_at (side_levels sd bk) p = spec_queue sd p (sp_orders s))"


lemma represents_rep_ok [simp]: "represents loc bk s \<Longrightarrow> rep_ok bk"
  by (simp add: represents_def)

lemma represents_located:
  assumes "represents loc bk s" and "table_find ref (orders bk) = Some l"
  obtains x where "x \<in> set (sp_orders s)" "so_reference x = ref" "so_side x = ol_side l"
    "resting_shares bk ref = Some (so_shares x)" "spec_find ref (sp_orders s) = Some x"
proof -
  have rep: "rep_ok bk" using assms(1) by simp
  obtain pl r where pl: "map_of (side_levels (ol_side l) bk) (ol_price l) = Some pl"
    and r: "(ol_position l, r) \<in> set (pl_orders pl)" "ro_order_reference r = ref"
    by (rule rep_ok_locate [OF rep assms(2)])
  have "(ref, ro_shares r) \<in> set (queue_at (side_levels (ol_side l) bk) (ol_price l))"
    using pl r by (auto simp: set_queue_at rests_at_def)
  then obtain x where x: "x \<in> set (sp_orders s)" "so_reference x = ref" "so_side x = ol_side l"
    "so_shares x = ro_shares r"
    using assms(1) by (auto simp: represents_def set_spec_queue)
  have "spec_find ref (sp_orders s) = Some x"
    using x(1,2) assms(1) by (simp add: represents_def spec_find_distinct)
  then show ?thesis
    using that x resting_shares_located [OF rep assms(2) pl r(1)] by simp
qed

lemma represents_fresh:
  assumes "represents loc bk s"
  shows "fresh bk ref \<longleftrightarrow> spec_fresh ref (sp_orders s)"
proof
  assume fresh: "fresh bk ref"
  show "spec_fresh ref (sp_orders s)"
    unfolding spec_fresh_def
  proof
    assume "ref \<in> so_reference ` set (sp_orders s)"
    then obtain x where "x \<in> set (sp_orders s)" "so_reference x = ref" by auto
    then have "(ref, so_shares x) \<in> set (queue_at (side_levels (so_side x) bk) (so_price x))"
      using assms by (auto simp: represents_def set_spec_queue)
    then show False
      using queue_member_in_table [OF represents_rep_ok [OF assms]] fresh
      by (fastforce simp: set_queue_at fresh_def)
  qed
next
  assume "spec_fresh ref (sp_orders s)"
  then show "fresh bk ref"
    unfolding fresh_def spec_fresh_def
    by (metis represents_located [OF assms] imageI not_None_eq)
qed

lemma represents_may_reduce:
  assumes "represents loc bk s" and "spec_may_reduce ref n (sp_orders s)"
  shows "may_reduce bk ref n"
proof (cases "table_find ref (orders bk)")
  case None
  then show ?thesis by (simp add: may_reduce_def resting_shares_def)
next
  case (Some l)
  then show ?thesis
    using assms(2)
    by (rule_tac represents_located [OF assms(1) Some]) (auto simp: may_reduce_def spec_may_reduce_def)
qed

lemma represents_admits:
  assumes "represents loc bk s" and "spec_admits loc (sp_orders s) m"
  shows "admissible bk m"
  using assms represents_fresh [OF assms(1)] represents_may_reduce [OF assms(1)]
  by (cases m) (auto simp: mine_def represents_def)

text \<open>Insertion and removal, without the tallies.\<close>

lemma represents_insert:
  assumes "represents loc bk s" and "spec_fresh ref (sp_orders s)"
  shows "represents loc (insert_on_side buy ref price shares bk)
    (s\<lparr>sp_orders := spec_add (side_of_flag buy) ref price shares (sp_orders s)\<rparr>)"
proof -
  have rep: "rep_ok bk" using assms(1) by simp
  define bk' where "bk' = insert_on_side buy ref price shares bk"
  note effect = insert_on_side_effect [OF rep_ok_heap [OF rep] bk'_def [symmetric] refl]
  have "rep_ok bk'"
    unfolding bk'_def using assms represents_fresh by (intro insert_rep_ok [OF rep]) (auto simp: fresh_def)
  moreover have "distinct (map so_reference (spec_add (side_of_flag buy) ref price shares (sp_orders s)))"
    using assms by (auto simp: represents_def spec_add_def spec_fresh_def)
  moreover have "queue_at (side_levels sd bk') p =
      spec_queue sd p (spec_add (side_of_flag buy) ref price shares (sp_orders s))" for sd p
    using assms(1) queue_at_insert [OF rep_ok_heap [OF rep] bk'_def [symmetric]]
    by (simp add: represents_def spec_queue_add)
  ultimately show ?thesis
    using assms(1) effect by (simp add: represents_def bk'_def)
qed

lemma represents_reduce:
  assumes "represents loc bk s" and "ra \<or> spec_may_reduce ref sr (sp_orders s)"
  shows "\<exists>bk'. reduce_or_remove b ref sr ra bk = Inr bk' \<and>
    represents loc bk' (s\<lparr>sp_orders := spec_edit ref (left_after ra sr) (sp_orders s)\<rparr>)"
proof -
  have rep: "rep_ok bk" using assms(1) by simp
  have "ra \<or> may_reduce bk ref sr" using assms represents_may_reduce by blast
  from reduce_rep_ok [OF rep this] obtain bk' where
    bk': "reduce_or_remove b ref sr ra bk = Inr bk'" "rep_ok bk'" by blast
  have "locate bk' = locate bk \<and> book_stats bk' = book_stats bk"
  proof (cases "table_find ref (orders bk)")
    case None
    then show ?thesis using bk'(1) by (simp add: reduce_or_remove_def)
  next
    case (Some l)
    show ?thesis by (rule reduce_or_remove_effect [OF rep_ok_heap [OF rep] bk'(1) Some]) simp
  qed
  then have "represents loc bk' (s\<lparr>sp_orders := spec_edit ref (left_after ra sr) (sp_orders s)\<rparr>)"
    using assms(1) bk' queue_at_reduce [OF rep bk'(1)]
    by (simp add: represents_def spec_queue_edit distinct_edit)
  then show ?thesis using bk'(1) by blast
qed

lemma represents_stats:
  "represents loc bk s \<Longrightarrow> represents loc (bk\<lparr>book_stats := st\<rparr>) (s\<lparr>sp_stats := st\<rparr>)"
  by (simp add: represents_def)


text \<open>One message.\<close>

lemma represents_add:
  assumes "represents loc bk s"
    and "stock_locate (ao_header m) = loc \<longrightarrow> spec_fresh (ao_order_reference m) (sp_orders s)"
  shows "\<exists>bk'. book_add m bk = Inr bk' \<and> represents loc bk' (spec_add_step loc m s)"
proof (cases "stock_locate (ao_header m) = loc")
  case False
  then show ?thesis using assms(1) by (auto simp: book_add_def spec_add_step_def represents_def)
next
  case True
  define bk' where "bk' = insert_on_side (ao_side m = Buy) (ao_order_reference m) (ao_price m)
      (ao_shares m) bk"
  have rep: "represents loc bk'
      (s\<lparr>sp_orders := spec_add (spec_side (ao_side m)) (ao_order_reference m) (ao_price m)
        (ao_shares m) (sp_orders s)\<rparr>)"
    using represents_insert [OF assms(1)] assms(2) True by (simp add: bk'_def spec_side_def)
  then show ?thesis
    using assms(1) True represents_stats [OF rep]
    by (auto simp: book_add_def spec_add_step_def Let_def bk'_def [symmetric] represents_def)
qed

lemma represents_executed:
  assumes "represents loc bk s"
    and "stock_locate (oe_header m) = loc \<longrightarrow>
      spec_may_reduce (oe_order_reference m) (oe_executed_shares m) (sp_orders s)"
  shows "\<exists>bk'. book_executed b m bk = Inr bk' \<and> represents loc bk' (spec_executed_step loc m s)"
  using assms represents_reduce [OF assms(1), of False "oe_order_reference m" "oe_executed_shares m" b]
  by (auto simp: book_executed_def spec_executed_step_def represents_def)

lemma represents_cancel:
  assumes "represents loc bk s"
    and "stock_locate (oc_header m) = loc \<longrightarrow>
      spec_may_reduce (oc_order_reference m) (oc_cancelled_shares m) (sp_orders s)"
  shows "\<exists>bk'. book_cancel b m bk = Inr bk' \<and> represents loc bk' (spec_cancel_step loc m s)"
  using assms represents_reduce [OF assms(1), of False "oc_order_reference m" "oc_cancelled_shares m" b]
  by (auto simp: book_cancel_def spec_cancel_step_def represents_def)

lemma represents_delete:
  assumes "represents loc bk s"
  shows "\<exists>bk'. book_delete b m bk = Inr bk' \<and> represents loc bk' (spec_delete_step loc m s)"
  using assms represents_reduce [OF assms(1), of True "od_order_reference m" 0 b]
  by (auto simp: book_delete_def spec_delete_step_def represents_def)

lemma represents_replace:
  assumes "represents loc bk s" and "spec_admits loc (sp_orders s) (OrderReplace m)"
  shows "\<exists>bk'. book_replace b m bk = Inr bk' \<and> represents loc bk' (spec_replace_step loc m s)"
proof (cases "stock_locate (ore_header m) = loc \<and>
    \<not> spec_fresh (ore_original_order_reference m) (sp_orders s)")
  case False
  then have "stock_locate (ore_header m) = loc \<Longrightarrow>
      table_find (ore_original_order_reference m) (orders bk) = None \<and>
      spec_find (ore_original_order_reference m) (sp_orders s) = None"
    using represents_fresh [OF assms(1)] by (simp add: fresh_def spec_find_None)
  moreover have "locate bk = loc" using assms(1) by (simp add: represents_def)
  ultimately show ?thesis
    using assms(1) by (cases "stock_locate (ore_header m) = loc")
      (simp_all add: book_replace_def spec_replace_step_def)
next
  case True
  let ?orig = "ore_original_order_reference m" and ?ref = "ore_new_order_reference m"
  obtain l where l: "table_find ?orig (orders bk) = Some l"
    using True represents_fresh [OF assms(1)] by (auto simp: fresh_def)
  obtain x where x: "so_side x = ol_side l" "spec_find ?orig (sp_orders s) = Some x"
    by (rule represents_located [OF assms(1) l])
  have sd: "side_of_flag (ol_side l = Buy) = so_side x"
    by (rule rep_ok_locate [OF represents_rep_ok [OF assms(1)] l]) (simp add: x(1))
  let ?s1 = "s\<lparr>sp_orders := spec_edit ?orig (left_after True 0) (sp_orders s)\<rparr>"
  obtain bk1 where bk1: "reduce_or_remove b ?orig 0 True bk = Inr bk1" "represents loc bk1 ?s1"
    using represents_reduce [OF assms(1), of True] by blast
  have "spec_fresh ?ref (sp_orders ?s1)"
    using True assms(2) references_remove [of ?orig 0 "sp_orders s"] by (auto simp: spec_fresh_def)
  from represents_insert [OF bk1(2) this, of "ol_side l = Buy" "ore_price m" "ore_shares m"]
  have rep: "represents loc
      (insert_on_side (ol_side l = Buy) ?ref (ore_price m) (ore_shares m) bk1)
      (?s1\<lparr>sp_orders := spec_add (so_side x) ?ref (ore_price m) (ore_shares m) (sp_orders ?s1)\<rparr>)"
    by (simp add: sd)
  then show ?thesis
    using True assms(1) bk1(1) x(2) l represents_stats [OF rep]
    by (auto simp: book_replace_def spec_replace_step_def Let_def represents_def)
qed


lemma deliver_represents:
  assumes "represents loc bk s" and "spec_admits loc (sp_orders s) m"
  shows "\<exists>bk'. deliver (book_handler b) m bk = Inr bk' \<and> represents loc bk' (spec_step loc m s)"
proof (cases m)
  case (AddOrder x)
  then show ?thesis using assms represents_add by (simp add: book_handler_def)
next
  case (AddOrderWithMpid x)
  then show ?thesis
    using assms represents_add by (simp add: book_handler_def book_add_with_mpid_def)
next
  case (OrderExecuted x)
  then show ?thesis using assms represents_executed by (simp add: book_handler_def)
next
  case (OrderExecutedWithPrice x)
  then show ?thesis
    using assms represents_executed by (simp add: book_handler_def book_executed_with_price_def)
next
  case (OrderCancel x)
  then show ?thesis using assms represents_cancel by (simp add: book_handler_def)
next
  case (OrderDelete x)
  then show ?thesis using assms represents_delete by (simp add: book_handler_def)
next
  case (OrderReplace x)
  then show ?thesis using assms represents_replace by (simp add: book_handler_def)
next
  case (TradeNonCross x)
  then show ?thesis
    using assms by (auto simp: book_handler_def book_trade_def represents_def)
qed (use assms in \<open>simp_all add: book_handler_def\<close>)

lemma run_represents:
  assumes "represents loc bk s" and "spec_admits_all loc s ms"
  shows "\<exists>bk'. fold_run (deliver (book_handler b)) ms bk = Inr bk' \<and>
    represents loc bk' (spec_run loc ms s)"
  using assms
proof (induction ms arbitrary: bk s)
  case Nil
  then show ?case by simp
next
  case (Cons m ms)
  then obtain bk1 where bk1: "deliver (book_handler b) m bk = Inr bk1"
    "represents loc bk1 (spec_step loc m s)"
    using deliver_represents [of loc bk s m b] by auto
  then show ?case using Cons.IH [OF bk1(2)] Cons.prems(2) by simp
qed

definition book_for :: "u16 \<Rightarrow> order_book" where
  "book_for loc = initial_book\<lparr>locate := loc\<rparr>"

lemma represents_initial: "represents loc (book_for loc) spec_initial"
proof -
  have "side_levels sd (book_for loc) = []" for sd
    by (cases sd) (simp_all add: book_for_def initial_book_def)
  then show ?thesis
    using rep_ok_initial [of loc]
    by (simp add: represents_def spec_initial_def queue_at_def spec_queue_def)
      (simp add: book_for_def initial_book_def)
qed

section \<open>Observations\<close>

lemma depth_level:
  "(of_nat (sum_list (map (unat \<circ> snd) (map order_view xs))) :: u64) =
     sum_list (map (\<lambda>(n, r). ucast (ro_shares r)) xs)"
  by (induction xs) (auto simp: order_view_def)

lemma level_of_price:
  assumes "represents loc bk s" and "map_of (side_levels sd bk) p = Some l"
  shows "p \<in> spec_prices sd (sp_orders s)" and "pl_total_shares l = of_nat (spec_depth sd p (sp_orders s))"
proof -
  have level: "level_ok l"
    using assms by (auto simp: represents_def rep_ok_def side_levels_ok_def)
  have queue: "spec_queue sd p (sp_orders s) = map order_view (pl_orders l)"
  proof -
    have "queue_at (side_levels sd bk) p = spec_queue sd p (sp_orders s)"
      using assms(1) by (simp add: represents_def)
    then show ?thesis using assms(2) by (simp add: queue_at_def)
  qed
  have "spec_queue sd p (sp_orders s) \<noteq> []" using level by (simp add: queue level_ok_def)
  then show "p \<in> spec_prices sd (sp_orders s)"
    by (auto simp: spec_queue_def spec_prices_def filter_empty_conv)
  show "pl_total_shares l = of_nat (spec_depth sd p (sp_orders s))"
    using level unfolding spec_depth_def queue depth_level by (simp add: level_ok_def level_shares_def)
qed

lemma price_has_level:
  assumes "represents loc bk s" and "p \<in> spec_prices sd (sp_orders s)"
  shows "\<exists>l. map_of (side_levels sd bk) p = Some l"
proof -
  have "spec_queue sd p (sp_orders s) \<noteq> []"
    using assms(2) by (auto simp: spec_queue_def spec_prices_def filter_empty_conv)
  then have "queue_at (side_levels sd bk) p \<noteq> []"
    using assms(1) by (simp add: represents_def)
  then show ?thesis by (auto simp: queue_at_def split: option.splits)
qed

lemma prices_are_keys:
  assumes "represents loc bk s"
  shows "fst ` set (side_levels sd bk) = spec_prices sd (sp_orders s)"
proof (intro set_eqI iffI)
  fix p
  assume "p \<in> fst ` set (side_levels sd bk)"
  then have "map_of (side_levels sd bk) p \<noteq> None" by (simp add: map_of_eq_None_iff)
  then obtain l where "map_of (side_levels sd bk) p = Some l" by (cases "map_of (side_levels sd bk) p") simp_all
  then show "p \<in> spec_prices sd (sp_orders s)" by (rule level_of_price(1) [OF assms])
next
  fix p
  assume "p \<in> spec_prices sd (sp_orders s)"
  from price_has_level [OF assms this] have "map_of (side_levels sd bk) p \<noteq> None" by (elim exE) simp
  then show "p \<in> fst ` set (side_levels sd bk)" by (simp add: map_of_eq_None_iff)
qed

lemma level_count:
  assumes "represents loc bk s" and "distinct (map fst (side_levels sd bk))"
  shows "length (side_levels sd bk) = card (spec_prices sd (sp_orders s))"
  using distinct_card [OF assms(2)] prices_are_keys [OF assms(1), of sd] by simp

lemma represents_order_count:
  assumes "represents loc bk s"
  shows "order_count bk = length (sp_orders s)"
proof -
  have "fst ` set (orders bk) = so_reference ` set (sp_orders s)"
    using represents_fresh [OF assms]
    by (auto simp: fresh_def spec_fresh_def table_find_def map_of_eq_None_iff)
  moreover have "distinct (map fst (orders bk))"
    using assms by (simp add: represents_def rep_ok_def heap_ok_def table_ok_def)
  moreover have "distinct (map so_reference (sp_orders s))"
    using assms by (simp add: represents_def)
  ultimately show ?thesis
    by (metis distinct_card length_map list.set_map order_count_def)
qed

text \<open>The depth of a price stays far below the wrap-around of the 64-bit total.\<close>

lemma spec_depth_bound:
  assumes "length ab \<le> 2 ^ 32"
  shows "spec_depth sd p ab < 2 ^ 64"
proof -
  have bound: "sum_list (map (unat \<circ> snd) q) \<le> length q * (2 ^ 32 - 1)" for q :: "(u64 \<times> u32) list"
  proof (induction q)
    case (Cons x q)
    have "unat (snd x) < 2 ^ LENGTH(32)" by (rule unsigned_less)
    then have "unat (snd x) \<le> 2 ^ 32 - 1" by simp
    then show ?case using Cons by simp
  qed simp
  have "length (spec_queue sd p ab) \<le> length ab" by (simp add: spec_queue_def)
  then have "spec_depth sd p ab \<le> 2 ^ 32 * (2 ^ 32 - 1)"
    unfolding spec_depth_def using bound [of "spec_queue sd p ab"] assms
    by (meson le_trans mult_le_mono1)
  then show ?thesis by simp
qed

end
