(* ===== verification/Book_Observations.thy ===== *)
theory Book_Observations
  imports Book_Refinement
begin

text \<open>
  What a caller reads off the book: the queries \<open>best_bid\<close>, \<open>best_ask\<close>, \<open>order_count\<close> and
  the level counts, on a book that represents an abstract one.
\<close>

section \<open>The head of a sorted level map\<close>

lemma best_level_None: "best_level levels = None \<longleftrightarrow> levels = []"
  by (simp add: best_level_def split: list.split prod.split)

lemma best_level_head:
  assumes "best_level levels = Some bl"
  shows "map_of levels (bl_price bl) \<noteq> None"
    and "map_option pl_total_shares (map_of levels (bl_price bl)) = Some (bl_shares bl)"
    and "levels = (bl_price bl, the (map_of levels (bl_price bl))) # tl levels"
  using assms by (auto simp: best_level_def split: list.splits prod.splits)

lemma head_before:
  assumes "sorted_map cmp levels" and "best_level levels = Some bl"
    and "p \<in> fst ` set levels" and "p \<noteq> bl_price bl"
  shows "cmp (bl_price bl) p"
  using assms by (auto simp: best_level_def sorted_map_def split: list.splits prod.splits)

text \<open>With no empty level, the head is the first price with an order, and there is one if any order rests.\<close>

definition best_at :: "price_ticks comparator \<Rightarrow> levels \<Rightarrow> book_level option \<Rightarrow> bool" where
  "best_at cmp levels best \<longleftrightarrow>
     (case best of
        None \<Rightarrow> \<forall>p. queue_at levels p = []
      | Some bl \<Rightarrow>
          queue_at levels (bl_price bl) \<noteq> [] \<and> total_at levels (bl_price bl) = Some (bl_shares bl) \<and>
          (\<forall>p. queue_at levels p \<noteq> [] \<longrightarrow> p = bl_price bl \<or> cmp (bl_price bl) p))"

lemma best_level_filled:
  assumes "sorted_map cmp levels" and "\<And>p l. map_of levels p = Some l \<Longrightarrow> pl_orders l \<noteq> []"
  shows "best_at cmp levels (best_level levels)"
proof (cases "best_level levels")
  case None
  then have "levels = []" by (simp add: best_level_None)
  then show ?thesis by (simp add: best_at_def best_level_def queue_at_def)
next
  case (Some bl)
  have listed: "p \<in> fst ` set levels" if "queue_at levels p \<noteq> []" for p
    using that by (force simp: queue_at_def dest: map_of_SomeD split: option.splits)
  have "total_at levels (bl_price bl) = Some (bl_shares bl)"
    using best_level_head(2) [OF Some] by (simp add: total_at_def)
  moreover from this have "queue_at levels (bl_price bl) \<noteq> []"
    using assms(2) by (auto simp: total_at_def queue_at_def)
  moreover have "p = bl_price bl \<or> cmp (bl_price bl) p" if "queue_at levels p \<noteq> []" for p
    using head_before [OF assms(1) Some listed [OF that]] by blast
  ultimately show ?thesis by (simp add: best_at_def Some)
qed

section \<open>The best prices\<close>

lemma represents_best:
  assumes "represents loc bk s" and "best_level (side_levels sd bk) = Some bl"
  shows "bl_price bl \<in> spec_prices sd (sp_orders s)"
    and "bl_shares bl = of_nat (spec_depth sd (bl_price bl) (sp_orders s))"
proof -
  obtain l where l: "map_of (side_levels sd bk) (bl_price bl) = Some l" "pl_total_shares l = bl_shares bl"
    using best_level_head(2) [OF assms(2)] by (auto simp: map_option_case split: option.splits)
  from level_of_price [OF assms(1) l(1)] l(2)
  show "bl_price bl \<in> spec_prices sd (sp_orders s)"
    and "bl_shares bl = of_nat (spec_depth sd (bl_price bl) (sp_orders s))"
    by simp_all
qed

lemma finite_spec_prices [simp]: "finite (spec_prices sd ab)"
  by (simp add: spec_prices_def)

definition spec_best_bid :: "spec_order list \<Rightarrow> book_level option" where
  "spec_best_bid ab =
     (if spec_prices Buy ab = {} then None
      else let p = Max (spec_prices Buy ab) in
        Some \<lparr>bl_price = p, bl_shares = of_nat (spec_depth Buy p ab)\<rparr>)"

definition spec_best_ask :: "spec_order list \<Rightarrow> book_level option" where
  "spec_best_ask ab =
     (if spec_prices Sell ab = {} then None
      else let p = Min (spec_prices Sell ab) in
        Some \<lparr>bl_price = p, bl_shares = of_nat (spec_depth Sell p ab)\<rparr>)"

lemma represents_sorted:
  assumes "represents loc bk s"
  shows "sorted_map bid_before (bids bk)" and "sorted_map ask_before (asks bk)"
  using represents_rep_ok [OF assms] by (simp_all add: rep_ok_def heap_ok_def)

lemma best_level_unique:
  assumes "represents loc bk s" and "best_level (side_levels sd bk) = Some bl" and "bl_price bl = p"
  shows "Some bl = Some \<lparr>bl_price = p, bl_shares = of_nat (spec_depth sd p (sp_orders s))\<rparr>"
  using represents_best(2) [OF assms(1,2)] assms(3) by (cases bl) simp

lemma represents_best_bid:
  assumes "represents loc bk s"
  shows "best_bid bk = spec_best_bid (sp_orders s)"
proof (cases "best_level (side_levels Buy bk)")
  case None
  then have "spec_prices Buy (sp_orders s) = {}"
    using prices_are_keys [OF assms, of Buy] by (simp add: best_level_None)
  with None show ?thesis by (simp add: best_bid_def spec_best_bid_def)
next
  case (Some bl)
  have in_prices: "bl_price bl \<in> spec_prices Buy (sp_orders s)"
    by (rule represents_best(1) [OF assms Some])
  have "bl_price bl = Max (spec_prices Buy (sp_orders s))"
  proof (rule Max_eqI [symmetric])
    fix q
    assume "q \<in> spec_prices Buy (sp_orders s)"
    then have "q \<in> fst ` set (bids bk)" using prices_are_keys [OF assms, of Buy] by simp
    then have "q \<noteq> bl_price bl \<longrightarrow> bid_before (bl_price bl) q"
      using head_before [OF represents_sorted(1) [OF assms], of bl q] Some by simp
    then show "q \<le> bl_price bl" by (cases "q = bl_price bl") (simp_all add: bid_before_def)
  qed (simp_all add: in_prices)
  from best_level_unique [OF assms Some this] Some in_prices show ?thesis
    by (auto simp: best_bid_def spec_best_bid_def Let_def)
qed

lemma represents_best_ask:
  assumes "represents loc bk s"
  shows "best_ask bk = spec_best_ask (sp_orders s)"
proof (cases "best_level (side_levels Sell bk)")
  case None
  then have "spec_prices Sell (sp_orders s) = {}"
    using prices_are_keys [OF assms, of Sell] by (simp add: best_level_None)
  with None show ?thesis by (simp add: best_ask_def spec_best_ask_def)
next
  case (Some bl)
  have in_prices: "bl_price bl \<in> spec_prices Sell (sp_orders s)"
    by (rule represents_best(1) [OF assms Some])
  have "bl_price bl = Min (spec_prices Sell (sp_orders s))"
  proof (rule Min_eqI [symmetric])
    fix q
    assume "q \<in> spec_prices Sell (sp_orders s)"
    then have "q \<in> fst ` set (asks bk)" using prices_are_keys [OF assms, of Sell] by simp
    then have "q \<noteq> bl_price bl \<longrightarrow> ask_before (bl_price bl) q"
      using head_before [OF represents_sorted(2) [OF assms], of bl q] Some by simp
    then show "bl_price bl \<le> q" by (cases "q = bl_price bl") (simp_all add: ask_before_def)
  qed (simp_all add: in_prices)
  from best_level_unique [OF assms Some this] Some in_prices show ?thesis
    by (auto simp: best_ask_def spec_best_ask_def Let_def)
qed

section \<open>Counts\<close>

lemma represents_level_counts:
  assumes "represents loc bk s"
  shows "bid_level_count bk = card (spec_prices Buy (sp_orders s))"
    and "ask_level_count bk = card (spec_prices Sell (sp_orders s))"
  using level_count [OF assms, of Buy] level_count [OF assms, of Sell]
    bid_order.distinct_sorted [OF represents_sorted(1) [OF assms]]
    ask_order.distinct_sorted [OF represents_sorted(2) [OF assms]]
  by (simp_all add: bid_level_count_def ask_level_count_def)

text \<open>Fewer than \<open>2 ^ 32\<close> orders cannot make a 64-bit share total wrap.\<close>

lemma best_size_exact:
  assumes "represents loc bk s" and "best_level (side_levels sd bk) = Some bl"
    and "length (sp_orders s) \<le> 2 ^ 32"
  shows "unat (bl_shares bl) = spec_depth sd (bl_price bl) (sp_orders s)"
proof -
  have "spec_depth sd (bl_price bl) (sp_orders s) < 2 ^ LENGTH(64)"
    using spec_depth_bound [OF assms(3)] by simp
  then show ?thesis
    using represents_best(2) [OF assms(1,2)] by (simp add: unsigned_of_nat take_bit_nat_eq_self)
qed

section \<open>Time priority\<close>

lemma edit_queue_remove: "edit_queue ref (left_after True n) q = filter (\<lambda>(r, _). r \<noteq> ref) q"
  by (induction q) (auto simp: edit_queue_def left_after_def)

text \<open>A replacement joins its queue at the end, and the original order leaves.\<close>

lemma book_replace_queue:
  assumes "rep_ok bk" and "stock_locate (ore_header m) = locate bk"
    and "table_find (ore_original_order_reference m) (orders bk) = Some l"
  shows "\<exists>bk'. book_replace b m bk = Inr bk' \<and>
    (\<forall>sd p. queue_at (side_levels sd bk') p =
       filter (\<lambda>(r, _). r \<noteq> ore_original_order_reference m) (queue_at (side_levels sd bk) p) @
       (if sd = ol_side l \<and> p = ore_price m then [(ore_new_order_reference m, ore_shares m)] else []))"
proof -
  obtain bk1 where bk1: "reduce_or_remove b (ore_original_order_reference m) 0 True bk = Inr bk1"
    "rep_ok bk1"
    using reduce_rep_ok [OF assms(1)] by blast
  have side: "ol_side l = side_of_flag (ol_side l = Buy)"
    by (rule rep_ok_locate [OF assms(1,3)])
  define bk2 where "bk2 = insert_on_side (ol_side l = Buy) (ore_new_order_reference m) (ore_price m)
    (ore_shares m) bk1"
  have "queue_at (side_levels sd bk2) p =
      filter (\<lambda>(r, _). r \<noteq> ore_original_order_reference m) (queue_at (side_levels sd bk) p) @
      (if sd = ol_side l \<and> p = ore_price m then [(ore_new_order_reference m, ore_shares m)] else [])"
    for sd p
    using queue_at_insert [OF rep_ok_heap [OF bk1(2)] bk2_def [symmetric], of sd p] side
    by (auto simp: queue_at_reduce [OF assms(1) bk1(1)] edit_queue_remove)
  then show ?thesis
    using assms(2,3) bk1(1) by (simp add: book_replace_def Let_def flip: bk2_def)
qed

text \<open>An execution or a cancel shrinks its order where it stands.\<close>

lemma book_executed_queue:
  assumes "rep_ok bk" and "stock_locate (oe_header m) = locate bk"
    and "may_reduce bk (oe_order_reference m) (oe_executed_shares m)"
  shows "\<exists>bk'. book_executed b m bk = Inr bk' \<and>
    (\<forall>sd p. queue_at (side_levels sd bk') p =
       edit_queue (oe_order_reference m) (left_after False (oe_executed_shares m))
         (queue_at (side_levels sd bk) p)) \<and>
    book_stats bk' = (book_stats bk)\<lparr>executions := executions (book_stats bk) + 1\<rparr>"
proof -
  obtain bk1 where bk1: "reduce_or_remove b (oe_order_reference m) (oe_executed_shares m) False bk = Inr bk1"
    using reduce_rep_ok [OF assms(1)] assms(3) by blast
  have "book_stats bk1 = book_stats bk"
  proof (cases "table_find (oe_order_reference m) (orders bk)")
    case None
    then show ?thesis using bk1 by (simp add: reduce_or_remove_def)
  next
    case (Some l)
    show ?thesis
      by (rule reduce_or_remove_effect [OF rep_ok_heap [OF assms(1)] bk1 Some]) simp
  qed
  then show ?thesis
    using assms(2) bk1 by (simp add: book_executed_def queue_at_reduce [OF assms(1) bk1])
qed

section \<open>The number of orders\<close>

lemma length_spec_edit: "length (spec_edit ref f ab) \<le> length ab"
  by (induction ab) (auto simp: spec_edit_def split: option.split)

lemma length_spec_step: "length (sp_orders (spec_step loc m s)) \<le> Suc (length (sp_orders s))"
  using length_spec_edit
  by (cases m)
    (auto simp: spec_add_step_def spec_executed_step_def spec_cancel_step_def spec_delete_step_def
      spec_replace_step_def spec_add_def le_SucI split: option.split)

lemma length_spec_run: "length (sp_orders (spec_run loc ms s)) \<le> length (sp_orders s) + length ms"
proof (induction ms arbitrary: s)
  case (Cons m ms)
  show ?case using Cons.IH [of "spec_step loc m s"] length_spec_step [of loc m s] by simp
qed simp

end
