(* ===== verification/Book_Ledger.thy ===== *)
theory Book_Ledger
  imports Book_Observations
begin

text \<open>
  The book as a function of the history of its messages. Every order has an account: the
  shares it was opened with, by an Add or a Replace, less what was executed and cancelled,
  until it is deleted or replaced, which leaves nothing. A feed is orderly when, of the
  messages of the book's locate, Adds and Replaces carry shares and name a reference not
  opened before, nothing is taken beyond an account, deletions name a reference opened before
  and replacements an original with shares outstanding; this is said on the messages alone,
  with no book in sight. On an orderly feed the abstract book admits every message, and what
  rests under a reference, in it and in the C++ book, is the balance of its account.
\<close>

section \<open>Accounts\<close>

text \<open>The shares a message opens an account with, those it takes, and whether it closes it.\<close>

fun opens :: "u16 \<Rightarrow> u64 \<Rightarrow> message \<Rightarrow> nat" where
  "opens loc ref (AddOrder m) =
     (if stock_locate (ao_header m) = loc \<and> ao_order_reference m = ref
      then unat (ao_shares m) else 0)"
| "opens loc ref (AddOrderWithMpid m) =
     (if stock_locate (ao_header (am_order m)) = loc \<and> ao_order_reference (am_order m) = ref
      then unat (ao_shares (am_order m)) else 0)"
| "opens loc ref (OrderReplace m) =
     (if stock_locate (ore_header m) = loc \<and> ore_new_order_reference m = ref
      then unat (ore_shares m) else 0)"
| "opens loc ref _ = 0"

fun takes :: "u16 \<Rightarrow> u64 \<Rightarrow> message \<Rightarrow> nat" where
  "takes loc ref (OrderExecuted m) =
     (if stock_locate (oe_header m) = loc \<and> oe_order_reference m = ref
      then unat (oe_executed_shares m) else 0)"
| "takes loc ref (OrderExecutedWithPrice m) =
     (if stock_locate (oe_header (op_executed m)) = loc \<and> oe_order_reference (op_executed m) = ref
      then unat (oe_executed_shares (op_executed m)) else 0)"
| "takes loc ref (OrderCancel m) =
     (if stock_locate (oc_header m) = loc \<and> oc_order_reference m = ref
      then unat (oc_cancelled_shares m) else 0)"
| "takes loc ref _ = 0"

fun closes :: "u16 \<Rightarrow> u64 \<Rightarrow> message \<Rightarrow> bool" where
  "closes loc ref (OrderDelete m) \<longleftrightarrow> stock_locate (od_header m) = loc \<and> od_order_reference m = ref"
| "closes loc ref (OrderReplace m) \<longleftrightarrow>
     stock_locate (ore_header m) = loc \<and> ore_original_order_reference m = ref"
| "closes loc ref _ \<longleftrightarrow> False"

definition opened :: "u16 \<Rightarrow> message list \<Rightarrow> u64 \<Rightarrow> nat" where
  "opened loc ms ref = sum_list (map (opens loc ref) ms)"

definition taken :: "u16 \<Rightarrow> message list \<Rightarrow> u64 \<Rightarrow> nat" where
  "taken loc ms ref = sum_list (map (takes loc ref) ms)"

definition closed :: "u16 \<Rightarrow> message list \<Rightarrow> u64 \<Rightarrow> bool" where
  "closed loc ms ref \<longleftrightarrow> list_ex (closes loc ref) ms"

definition outstanding :: "u16 \<Rightarrow> message list \<Rightarrow> u64 \<Rightarrow> nat" where
  "outstanding loc ms ref = (if closed loc ms ref then 0 else opened loc ms ref - taken loc ms ref)"

section \<open>Orderly feeds\<close>

fun orderly_message :: "u16 \<Rightarrow> message list \<Rightarrow> message \<Rightarrow> bool" where
  "orderly_message loc past (AddOrder m) \<longleftrightarrow>
     (stock_locate (ao_header m) = loc \<longrightarrow>
        ao_shares m \<noteq> 0 \<and> opened loc past (ao_order_reference m) = 0)"
| "orderly_message loc past (AddOrderWithMpid m) \<longleftrightarrow>
     (stock_locate (ao_header (am_order m)) = loc \<longrightarrow>
        ao_shares (am_order m) \<noteq> 0 \<and> opened loc past (ao_order_reference (am_order m)) = 0)"
| "orderly_message loc past (OrderExecuted m) \<longleftrightarrow>
     (stock_locate (oe_header m) = loc \<longrightarrow>
        unat (oe_executed_shares m) \<le> outstanding loc past (oe_order_reference m))"
| "orderly_message loc past (OrderExecutedWithPrice m) \<longleftrightarrow>
     (stock_locate (oe_header (op_executed m)) = loc \<longrightarrow>
        unat (oe_executed_shares (op_executed m)) \<le>
          outstanding loc past (oe_order_reference (op_executed m)))"
| "orderly_message loc past (OrderCancel m) \<longleftrightarrow>
     (stock_locate (oc_header m) = loc \<longrightarrow>
        unat (oc_cancelled_shares m) \<le> outstanding loc past (oc_order_reference m))"
| "orderly_message loc past (OrderDelete m) \<longleftrightarrow>
     (stock_locate (od_header m) = loc \<longrightarrow> opened loc past (od_order_reference m) \<noteq> 0)"
| "orderly_message loc past (OrderReplace m) \<longleftrightarrow>
     (stock_locate (ore_header m) = loc \<longrightarrow>
        outstanding loc past (ore_original_order_reference m) \<noteq> 0 \<and> ore_shares m \<noteq> 0 \<and>
        opened loc past (ore_new_order_reference m) = 0)"
| "orderly_message loc past _ \<longleftrightarrow> True"

fun orderly_after :: "u16 \<Rightarrow> message list \<Rightarrow> message list \<Rightarrow> bool" where
  "orderly_after loc past [] \<longleftrightarrow> True"
| "orderly_after loc past (m # ms) \<longleftrightarrow>
     orderly_message loc past m \<and> orderly_after loc (past @ [m]) ms"

definition orderly :: "u16 \<Rightarrow> message list \<Rightarrow> bool" where
  "orderly loc = orderly_after loc []"

lemma ledger_Nil [simp]:
  "opened loc [] ref = 0" "taken loc [] ref = 0" "\<not> closed loc [] ref"
  by (simp_all add: opened_def taken_def closed_def)

lemma ledger_snoc [simp]:
  "opened loc (ms @ [m]) ref = opened loc ms ref + opens loc ref m"
  "taken loc (ms @ [m]) ref = taken loc ms ref + takes loc ref m"
  "closed loc (ms @ [m]) ref \<longleftrightarrow> closed loc ms ref \<or> closes loc ref m"
  by (simp_all add: opened_def taken_def closed_def)

text \<open>No account is overdrawn, and only accounts that were opened are closed.\<close>

definition books_balance :: "u16 \<Rightarrow> message list \<Rightarrow> bool" where
  "books_balance loc ms \<longleftrightarrow>
     (\<forall>ref. taken loc ms ref \<le> opened loc ms ref \<and> (closed loc ms ref \<longrightarrow> opened loc ms ref \<noteq> 0))"

lemma books_balance_unopened:
  "books_balance loc ms \<Longrightarrow> opened loc ms ref = 0 \<Longrightarrow> taken loc ms ref = 0 \<and> \<not> closed loc ms ref"
  by (metis books_balance_def le_zero_eq)

lemma outstanding_opened: "outstanding loc ms ref \<noteq> 0 \<Longrightarrow> opened loc ms ref \<noteq> 0"
  by (auto simp: outstanding_def split: if_splits)

lemma books_balance_step:
  assumes "books_balance loc ms" and "orderly_message loc ms m"
  shows "books_balance loc (ms @ [m])"
  unfolding books_balance_def
proof
  fix ref
  have "taken loc ms ref \<le> opened loc ms ref" "closed loc ms ref \<longrightarrow> opened loc ms ref \<noteq> 0"
    using assms(1) by (simp_all add: books_balance_def)
  then show "taken loc (ms @ [m]) ref \<le> opened loc (ms @ [m]) ref \<and>
      (closed loc (ms @ [m]) ref \<longrightarrow> opened loc (ms @ [m]) ref \<noteq> 0)"
    using assms(2) outstanding_opened [of loc ms ref]
    by (cases m) (auto simp: outstanding_def split: if_splits)
qed

section \<open>What rests in the abstract book\<close>

definition shares_of :: "u64 \<Rightarrow> spec_order list \<Rightarrow> nat" where
  "shares_of ref ab = sum_list (map (\<lambda>x. if so_reference x = ref then unat (so_shares x) else 0) ab)"

lemma shares_of_simps [simp]:
  "shares_of ref [] = 0"
  "shares_of ref (x # ab) =
     (if so_reference x = ref then unat (so_shares x) else 0) + shares_of ref ab"
  by (simp_all add: shares_of_def)

lemma shares_of_absent: "ref \<notin> so_reference ` set ab \<Longrightarrow> shares_of ref ab = 0"
  by (induction ab) auto

lemma shares_of_member:
  "distinct (map so_reference ab) \<Longrightarrow> x \<in> set ab \<Longrightarrow>
     shares_of (so_reference x) ab = unat (so_shares x)"
proof (induction ab)
  case (Cons y ab)
  show ?case
  proof (cases "x = y")
    case True
    then show ?thesis using Cons.prems(1) by (simp add: shares_of_absent)
  next
    case False
    then have "x \<in> set ab" "so_reference y \<noteq> so_reference x"
      using Cons.prems by (auto simp: image_iff)
    then show ?thesis using Cons by simp
  qed
qed simp

lemma shares_of_add:
  "shares_of ref (spec_add sd r p n ab) = shares_of ref ab + (if ref = r then unat n else 0)"
  by (simp add: shares_of_def spec_add_def)

lemma shares_of_edit_other: "ref \<noteq> r \<Longrightarrow> shares_of ref (spec_edit r f ab) = shares_of ref ab"
  by (induction ab) (auto simp: spec_edit_Cons split: option.split)

lemma shares_of_removed: "shares_of r (spec_edit r (left_after True n) ab) = 0"
  by (rule shares_of_absent) (simp add: references_remove)

lemma shares_of_reduced:
  assumes "distinct (map so_reference ab)" and "spec_may_reduce r n ab"
    and "unat n \<le> shares_of r ab"
  shows "shares_of r (spec_edit r (left_after False n) ab) = shares_of r ab - unat n"
  using assms
proof (induction ab)
  case (Cons x ab)
  show ?case
  proof (cases "so_reference x = r")
    case True
    then have "r \<notin> so_reference ` set ab" using Cons.prems(1) by auto
    moreover have "n \<le> so_shares x" using Cons.prems(2) True by (simp add: spec_may_reduce_def)
    ultimately show ?thesis
      using True spec_edit_absent [of r ab] shares_of_absent [of r ab]
      by (simp add: spec_edit_Cons spec_fresh_def left_after_def unat_sub)
  next
    case False
    then show ?thesis using Cons by (simp add: spec_edit_Cons spec_may_reduce_def)
  qed
qed simp

text \<open>The abstract book keeps the accounts \<open>L\<close>.\<close>

definition accounts :: "(u64 \<Rightarrow> nat) \<Rightarrow> spec_order list \<Rightarrow> bool" where
  "accounts L ab \<longleftrightarrow> distinct (map so_reference ab) \<and> (\<forall>x \<in> set ab. so_shares x \<noteq> 0) \<and>
     (\<forall>ref. shares_of ref ab = L ref)"

lemma accounts_fresh: "accounts L ab \<Longrightarrow> spec_fresh ref ab \<longleftrightarrow> L ref = 0"
  using shares_of_absent [of ref ab] shares_of_member [of ab]
  by (fastforce simp: accounts_def spec_fresh_def unat_eq_0)

lemma accounts_may_reduce: "accounts L ab \<Longrightarrow> unat n \<le> L ref \<Longrightarrow> spec_may_reduce ref n ab"
  using shares_of_member [of ab] by (fastforce simp: accounts_def spec_may_reduce_def word_le_nat_alt)

lemma accounts_add:
  assumes "accounts L ab" and "L r = 0" and "n \<noteq> 0"
  shows "accounts (L(r := unat n)) (spec_add sd r p n ab)"
  using assms accounts_fresh [OF assms(1), of r]
  by (auto simp: accounts_def shares_of_add) (auto simp: spec_add_def spec_fresh_def)

lemma accounts_take:
  assumes "accounts L ab" and "unat n \<le> L r"
  shows "accounts (L(r := L r - unat n)) (spec_edit r (left_after False n) ab)"
proof -
  have "\<forall>x \<in> set (spec_edit r (left_after False n) ab). so_shares x \<noteq> 0"
    using assms(1) by (auto simp: accounts_def spec_edit_def left_after_def split: if_splits)
  then show ?thesis
    using assms accounts_may_reduce [OF assms]
    by (simp add: accounts_def distinct_edit shares_of_edit_other shares_of_reduced)
qed

lemma accounts_close:
  assumes "accounts L ab"
  shows "accounts (L(r := 0)) (spec_edit r (left_after True n) ab)"
  using assms
  by (auto simp: accounts_def distinct_edit shares_of_edit_other shares_of_removed)
    (auto simp: spec_edit_def left_after_def split: if_splits)

section \<open>Orderly feeds are admitted\<close>

text \<open>What a message does to the accounts.\<close>

lemma outstanding_idle:
  assumes "\<And>ref. opens loc ref m = 0 \<and> takes loc ref m = 0 \<and> \<not> closes loc ref m"
  shows "outstanding loc (ms @ [m]) = outstanding loc ms"
  using assms by (simp add: outstanding_def fun_eq_iff)

lemma outstanding_opens:
  assumes "books_balance loc ms" and "opened loc ms r = 0"
    and "\<And>ref. opens loc ref m = (if ref = r then n else 0) \<and> takes loc ref m = 0 \<and> \<not> closes loc ref m"
  shows "outstanding loc (ms @ [m]) = (outstanding loc ms)(r := n)"
  using assms(3) books_balance_unopened [OF assms(1,2)] assms(2)
  by (simp add: outstanding_def fun_eq_iff)

lemma outstanding_takes:
  assumes "\<And>ref. opens loc ref m = 0 \<and> takes loc ref m = (if ref = r then n else 0) \<and> \<not> closes loc ref m"
  shows "outstanding loc (ms @ [m]) = (outstanding loc ms)(r := outstanding loc ms r - n)"
  using assms by (simp add: outstanding_def fun_eq_iff)

lemma outstanding_closes:
  assumes "\<And>ref. opens loc ref m = 0 \<and> takes loc ref m = 0 \<and> (closes loc ref m \<longleftrightarrow> ref = r)"
  shows "outstanding loc (ms @ [m]) = (outstanding loc ms)(r := 0)"
  using assms by (simp add: outstanding_def fun_eq_iff)

lemma outstanding_replaces:
  assumes "books_balance loc ms" and "opened loc ms r' = 0" and "r \<noteq> r'"
    and "\<And>ref. opens loc ref m = (if ref = r' then n else 0) \<and> takes loc ref m = 0 \<and>
      (closes loc ref m \<longleftrightarrow> ref = r)"
  shows "outstanding loc (ms @ [m]) = (outstanding loc ms)(r := 0, r' := n)"
  using assms(3,4) books_balance_unopened [OF assms(1,2)] assms(2)
  by (simp add: outstanding_def fun_eq_iff)

definition keeps_accounts :: "u16 \<Rightarrow> message list \<Rightarrow> spec_book \<Rightarrow> bool" where
  "keeps_accounts loc ms s \<longleftrightarrow> books_balance loc ms \<and> accounts (outstanding loc ms) (sp_orders s)"

lemma keeps_accounts_add:
  assumes "keeps_accounts loc ms s" and "opened loc ms (ao_order_reference m) = 0"
    and "ao_shares m \<noteq> 0" and "stock_locate (ao_header m) = loc"
    and "\<And>ref. opens loc ref msg = (if ref = ao_order_reference m then unat (ao_shares m) else 0) \<and>
      takes loc ref msg = 0 \<and> \<not> closes loc ref msg"
  shows "spec_fresh (ao_order_reference m) (sp_orders s)"
    and "accounts (outstanding loc (ms @ [msg])) (sp_orders (spec_add_step loc m s))"
proof -
  have balance: "books_balance loc ms" and acc: "accounts (outstanding loc ms) (sp_orders s)"
    using assms(1) by (simp_all add: keeps_accounts_def)
  have none: "outstanding loc ms (ao_order_reference m) = 0"
    using outstanding_opened assms(2) by blast
  show "spec_fresh (ao_order_reference m) (sp_orders s)"
    using accounts_fresh [OF acc] none by blast
  show "accounts (outstanding loc (ms @ [msg])) (sp_orders (spec_add_step loc m s))"
    unfolding outstanding_opens [OF balance assms(2,5)]
    using accounts_add [OF acc none assms(3)] by (simp add: spec_add_step_def assms(4))
qed

lemma keeps_accounts_take:
  assumes "keeps_accounts loc ms s" and "unat n \<le> outstanding loc ms r"
    and "\<And>ref. opens loc ref msg = 0 \<and> takes loc ref msg = (if ref = r then unat n else 0) \<and>
      \<not> closes loc ref msg"
  shows "spec_may_reduce r n (sp_orders s)"
    and "accounts (outstanding loc (ms @ [msg])) (spec_edit r (left_after False n) (sp_orders s))"
  using assms(1,2) unfolding outstanding_takes [OF assms(3)] keeps_accounts_def
  by (blast intro: accounts_may_reduce accounts_take)+

lemma keeps_accounts_replace:
  assumes "keeps_accounts loc ms s" and "orderly_message loc ms (OrderReplace m)"
    and "stock_locate (ore_header m) = loc"
  shows "spec_fresh (ore_new_order_reference m) (sp_orders s)"
    and "accounts (outstanding loc (ms @ [OrderReplace m])) (sp_orders (spec_replace_step loc m s))"
proof -
  let ?r = "ore_original_order_reference m" and ?r' = "ore_new_order_reference m"
  have balance: "books_balance loc ms" and acc: "accounts (outstanding loc ms) (sp_orders s)"
    using assms(1) by (simp_all add: keeps_accounts_def)
  have rests: "outstanding loc ms ?r \<noteq> 0" and new: "opened loc ms ?r' = 0" "ore_shares m \<noteq> 0"
    using assms(2,3) by simp_all
  have none: "outstanding loc ms ?r' = 0" using outstanding_opened new(1) by blast
  then show "spec_fresh ?r' (sp_orders s)" using accounts_fresh [OF acc] by blast
  have "\<not> spec_fresh ?r (sp_orders s)" using accounts_fresh [OF acc, of ?r] rests by simp
  then obtain x where x: "spec_find ?r (sp_orders s) = Some x"
    using spec_find_None by blast
  have differ: "?r \<noteq> ?r'" using rests none by metis
  have "outstanding loc (ms @ [OrderReplace m]) =
      (outstanding loc ms)(?r := 0, ?r' := unat (ore_shares m))"
    by (rule outstanding_replaces [OF balance new(1) differ]) (auto simp: assms(3))
  then show "accounts (outstanding loc (ms @ [OrderReplace m])) (sp_orders (spec_replace_step loc m s))"
    using accounts_add [OF accounts_close [OF acc, of ?r 0], of ?r' "ore_shares m"] none new(2) differ
    by (simp add: spec_replace_step_def assms(3) x)
qed

lemma orderly_own_step:
  assumes "keeps_accounts loc ms s" and "orderly_message loc ms m"
    and "stock_locate (message_header m) = loc"
  shows "spec_admits loc (sp_orders s) m \<and>
    accounts (outstanding loc (ms @ [m])) (sp_orders (spec_step loc m s))"
proof (cases m)
  case (AddOrder a)
  then show ?thesis using keeps_accounts_add [OF assms(1), of a m] assms(2,3) by simp
next
  case (AddOrderWithMpid a)
  then show ?thesis using keeps_accounts_add [OF assms(1), of "am_order a" m] assms(2,3) by simp
next
  case (OrderExecuted e)
  then show ?thesis
    using keeps_accounts_take [OF assms(1), of "oe_executed_shares e" "oe_order_reference e" m] assms(2,3)
    by (simp add: spec_executed_step_def)
next
  case (OrderExecutedWithPrice e)
  then show ?thesis
    using keeps_accounts_take [OF assms(1), of "oe_executed_shares (op_executed e)"
        "oe_order_reference (op_executed e)" m] assms(2,3)
    by (simp add: spec_executed_step_def)
next
  case (OrderCancel c)
  then show ?thesis
    using keeps_accounts_take [OF assms(1), of "oc_cancelled_shares c" "oc_order_reference c" m] assms(2,3)
    by (simp add: spec_cancel_step_def)
next
  case (OrderDelete d)
  then have "outstanding loc (ms @ [m]) = (outstanding loc ms)(od_order_reference d := 0)"
    using assms(3) by (intro outstanding_closes) auto
  then show ?thesis
    using OrderDelete assms(1,3) accounts_close [of "outstanding loc ms"]
    by (simp add: spec_delete_step_def keeps_accounts_def)
next
  case (OrderReplace r)
  then show ?thesis using keeps_accounts_replace [OF assms(1), of r] assms(2,3) by simp
qed (use assms outstanding_idle [of loc m ms] in \<open>simp_all add: keeps_accounts_def\<close>)

lemma orderly_step:
  assumes "keeps_accounts loc ms s" and "orderly_message loc ms m"
  shows "spec_admits loc (sp_orders s) m" and "keeps_accounts loc (ms @ [m]) (spec_step loc m s)"
proof -
  have "spec_admits loc (sp_orders s) m \<and>
      accounts (outstanding loc (ms @ [m])) (sp_orders (spec_step loc m s))"
  proof (cases "stock_locate (message_header m) = loc")
    case False
    then have "outstanding loc (ms @ [m]) = outstanding loc ms"
      by (intro outstanding_idle; cases m) auto
    then show ?thesis
      using False assms(1) spec_step_foreign [of m loc s]
      by (cases m) (auto simp: keeps_accounts_def)
  qed (rule orderly_own_step [OF assms])
  then show "spec_admits loc (sp_orders s) m" and "keeps_accounts loc (ms @ [m]) (spec_step loc m s)"
    using books_balance_step assms by (auto simp: keeps_accounts_def)
qed

lemma orderly_after_run:
  "keeps_accounts loc past s \<Longrightarrow> orderly_after loc past ms \<Longrightarrow>
     spec_admits_all loc s ms \<and> keeps_accounts loc (past @ ms) (spec_run loc ms s)"
proof (induction ms arbitrary: past s)
  case (Cons m ms)
  then show ?case
    using orderly_step [OF Cons.prems(1), of m] Cons.IH [of "past @ [m]" "spec_step loc m s"] by simp
qed simp

lemma keeps_accounts_initial: "keeps_accounts loc [] spec_initial"
  by (simp add: keeps_accounts_def books_balance_def accounts_def spec_initial_def outstanding_def)

lemma orderly_run:
  assumes "orderly loc ms"
  shows "spec_admits_all loc spec_initial ms"
    and "accounts (outstanding loc ms) (sp_orders (spec_run loc ms spec_initial))"
  using orderly_after_run [OF keeps_accounts_initial, of loc ms] assms
  by (simp_all add: orderly_def keeps_accounts_def)

section \<open>The accounts in the C++ book\<close>

lemma represents_resting:
  assumes "represents loc bk s"
  shows "resting_shares bk ref = map_option so_shares (spec_find ref (sp_orders s))"
proof (cases "table_find ref (orders bk)")
  case None
  then have "spec_fresh ref (sp_orders s)"
    using represents_fresh [OF assms, of ref] by (simp add: fresh_def)
  then show ?thesis using None by (simp add: resting_shares_def flip: spec_find_None)
next
  case (Some l)
  then show ?thesis by (rule represents_located [OF assms]) simp
qed

lemma accounts_find:
  assumes "accounts L ab"
  shows "map_option (unat \<circ> so_shares) (spec_find ref ab) = (if L ref = 0 then None else Some (L ref))"
proof (cases "spec_find ref ab")
  case None
  then show ?thesis using accounts_fresh [OF assms, of ref] by (simp add: spec_find_None)
next
  case (Some x)
  then have x: "x \<in> set ab" "so_reference x = ref"
    by (auto simp: spec_find_def find_Some_iff)
  then have "unat (so_shares x) = L ref"
    using assms shares_of_member [of ab x] by (auto simp: accounts_def)
  moreover have "L ref \<noteq> 0"
    using accounts_fresh [OF assms, of ref] Some by (simp flip: spec_find_None)
  ultimately show ?thesis using Some by simp
qed

lemma accounts_length:
  assumes "accounts L ab"
  shows "length ab = card {ref. L ref \<noteq> 0}"
proof -
  have "L ref \<noteq> 0 \<longleftrightarrow> ref \<in> set (map so_reference ab)" for ref
    using accounts_fresh [OF assms, of ref] by (auto simp: spec_fresh_def)
  then have "{ref. L ref \<noteq> 0} = set (map so_reference ab)" by blast
  then show ?thesis
    using assms distinct_card [of "map so_reference ab"] by (simp add: accounts_def)
qed

lemma represents_accounts:
  assumes "represents loc bk s" and "accounts L (sp_orders s)"
  shows "map_option unat (resting_shares bk ref) = (if L ref = 0 then None else Some (L ref))"
    and "order_count bk = card {ref. L ref \<noteq> 0}"
  using accounts_find [OF assms(2), of ref] accounts_length [OF assms(2)]
  by (simp_all add: represents_resting [OF assms(1)] represents_order_count [OF assms(1)]
      option.map_comp)

end
