(* ===== verification/Text_Output.thy ===== *)
theory Text_Output
  imports Itch_Prelude
begin

text \<open>
  What the tools use of \<open>iostream\<close> and \<open>printf\<close> for whole numbers and strings: decimal
  output, leading zeros, \<open>setw\<close> with \<open>left\<close> or the default alignment. A text is a list of
  characters, so a line of output is a string that ends in a newline. The lemmas say that
  nothing printed is lost: numbers read back, and a text without other newlines splits into
  its lines in one way only.
\<close>

section \<open>Numbers\<close>

definition digit :: "nat \<Rightarrow> char" where
  "digit d = char_of (48 + d)"

fun decimal :: "nat \<Rightarrow> string" where
  "decimal n = (if n < 10 then [digit n] else decimal (n div 10) @ [digit (n mod 10)])"

declare decimal.simps [simp del]

definition zero_padded :: "nat \<Rightarrow> nat \<Rightarrow> string" where
  "zero_padded width n = replicate (width - length (decimal n)) CHR ''0'' @ decimal n"

definition decimal_value :: "string \<Rightarrow> nat" where
  "decimal_value s = foldl (\<lambda>acc c. acc * 10 + (of_char c - 48)) 0 s"

lemma of_char_digit: "d < 10 \<Longrightarrow> of_char (digit d) = 48 + d"
  by (simp add: digit_def of_char_of)

lemma decimal_value_decimal [simp]: "decimal_value (decimal n) = n"
proof (induction n rule: decimal.induct)
  case (1 n)
  show ?case
  proof (cases "n < 10")
    case True
    then show ?thesis
      by (subst decimal.simps) (simp add: decimal_value_def of_char_digit)
  next
    case False
    have d: "of_char (digit (n mod 10)) = 48 + n mod 10" by (rule of_char_digit) simp
    have "decimal_value (decimal n) =
        decimal_value (decimal (n div 10)) * 10 + (of_char (digit (n mod 10)) - 48)"
      using False by (subst decimal.simps) (simp add: decimal_value_def)
    then show ?thesis using 1 [OF False] by (simp add: d)
  qed
qed

lemma decimal_value_padded [simp]: "decimal_value (zero_padded w n) = n"
proof -
  have "foldl (\<lambda>acc c. acc * 10 + (of_char c - 48)) 0 (replicate k CHR ''0'') = (0::nat)" for k
    by (induction k) simp_all
  then show ?thesis
    using decimal_value_decimal [of n] by (simp add: decimal_value_def zero_padded_def)
qed

lemma length_decimal: "n < 10 ^ k \<Longrightarrow> 0 < k \<Longrightarrow> length (decimal n) \<le> k"
proof (induction k arbitrary: n)
  case (Suc k)
  show ?case
  proof (cases "n < 10")
    case False
    then have "k \<noteq> 0" using Suc.prems(1) by (cases k) auto
    then have "length (decimal (n div 10)) \<le> k"
      using Suc by (simp add: less_mult_imp_div_less mult.commute)
    then show ?thesis using False by (subst decimal.simps) simp
  qed (subst decimal.simps, simp)
qed simp

lemma length_padded: "n < 10 ^ w \<Longrightarrow> 0 < w \<Longrightarrow> length (zero_padded w n) = w"
  using length_decimal [of n w] by (simp add: zero_padded_def)

lemma length_padded_le: "n < 10 ^ k \<Longrightarrow> 0 < k \<Longrightarrow> w \<le> k \<Longrightarrow> length (zero_padded w n) \<le> k"
  using length_decimal [of n k] by (simp add: zero_padded_def)


lemma decimal_inj [simp]: "decimal m = decimal n \<longleftrightarrow> m = n"
  using decimal_value_decimal by metis

lemma decimal_nonempty [simp]: "decimal n \<noteq> []"
  by (subst decimal.simps) simp

lemma digits_of_decimal: "c \<in> set (decimal n) \<Longrightarrow> 48 \<le> (of_char c :: nat) \<and> (of_char c :: nat) < 58"
proof (induction n rule: decimal.induct)
  case (1 n)
  show ?case
  proof (cases "n < 10")
    case True
    with "1.prems" show ?thesis by (subst (asm) decimal.simps) (simp add: of_char_digit)
  next
    case False
    have "n mod 10 < 10" by simp
    with False "1.prems" "1.IH" [OF False] show ?thesis
      by (subst (asm) decimal.simps) (auto simp: of_char_digit)
  qed
qed

section \<open>Alignment and lines\<close>

definition left_aligned :: "nat \<Rightarrow> string \<Rightarrow> string" where
  "left_aligned width s = s @ replicate (width - length s) CHR '' ''"

definition right_aligned :: "nat \<Rightarrow> string \<Rightarrow> string" where
  "right_aligned width s = replicate (width - length s) CHR '' '' @ s"

definition newline :: string where
  "newline = [CHR 0x0A]"

text \<open>Output that never writes a newline inside a line.\<close>

definition single_line :: "string \<Rightarrow> bool" where
  "single_line s \<longleftrightarrow> CHR 0x0A \<notin> set s"

definition lines :: "string list \<Rightarrow> string" where
  "lines ls = concat (map (\<lambda>l. l @ newline) ls)"

lemma single_line_simps [simp]:
  "single_line []" "single_line (c # s) \<longleftrightarrow> c \<noteq> CHR 0x0A \<and> single_line s"
  "single_line (s @ t) \<longleftrightarrow> single_line s \<and> single_line t"
  by (auto simp: single_line_def)

lemma lines_simps [simp]: "lines [] = []" "lines (l # ls) = l @ newline @ lines ls"
  "lines (ls @ ms) = lines ls @ lines ms"
  by (simp_all add: lines_def)

lemma single_line_decimal [simp]: "single_line (decimal n)"
  using digits_of_decimal [of "CHR 0x0A" n] by (auto simp: single_line_def)

lemma single_line_left_aligned [simp]: "single_line (left_aligned w s) \<longleftrightarrow> single_line s"
  by (auto simp: single_line_def left_aligned_def)

text \<open>A separator that occurs in neither part before it.\<close>

lemma split_at_inj:
  assumes "c \<notin> set xs" and "c \<notin> set ys"
  shows "xs @ c # t = ys @ c # t' \<longleftrightarrow> xs = ys \<and> t = t'"
proof
  have split: "takeWhile (\<lambda>x. x \<noteq> c) (zs @ c # t) = zs" "dropWhile (\<lambda>x. x \<noteq> c) (zs @ c # t) = c # t"
    if "c \<notin> set zs" for zs t
    using that by (auto simp: takeWhile_append dropWhile_append)
  assume "xs @ c # t = ys @ c # t'"
  then show "xs = ys \<and> t = t'"
    using split [OF assms(1), of t] split [OF assms(2), of t'] by simp
qed simp

lemma not_in_decimal: "(of_char c :: nat) < 48 \<or> 58 \<le> (of_char c :: nat) \<Longrightarrow> c \<notin> set (decimal n)"
  using digits_of_decimal [of c n] by linarith

lemma lines_inj:
  "list_all single_line ls \<Longrightarrow> list_all single_line ms \<Longrightarrow> lines ls = lines ms \<longleftrightarrow> ls = ms"
proof (induction ls arbitrary: ms)
  case Nil
  then show ?case by (cases ms) (simp_all add: newline_def)
next
  case (Cons l ls)
  show ?case
  proof (cases ms)
    case Nil
    then show ?thesis by (simp add: newline_def)
  next
    case (Cons m ms')
    then show ?thesis
      using Cons.IH [of ms'] Cons.prems split_at_inj [of "CHR 0x0A" l m "lines ls" "lines ms'"]
      by (auto simp: newline_def single_line_def)
  qed
qed

end
