(* ===== verification/Itch_Count.thy ===== *)
theory Itch_Count
  imports Session Text_Output
begin

text \<open>
  \<open>tools/itch_count.cpp\<close>: the session census and the verdicts the tool derives from it. The
  census is a handler of the parser that never faults on a framed session; the lemmas give
  its final state in closed form from the messages of the session.

  What \<open>main\<close> prints, and \<open>main\<close> itself, are in \<open>Count_Report\<close>.
\<close>

section \<open>The census\<close>

record census =
  counts :: "u64 list"
  message_total :: u64
  backwards_timestamps :: u64
  first_timestamp_ns :: u64
  last_timestamp_ns :: u64
  system_events :: string

definition initial_census :: census where
  "initial_census = \<lparr>counts = replicate 256 0, message_total = 0, backwards_timestamps = 0,
     first_timestamp_ns = 0, last_timestamp_ns = 0, system_events = []\<rparr>"

definition note_header :: "message_header \<Rightarrow> census \<Rightarrow> census" where
  "note_header h c =
     (let i = unat (byte_of_char (msg_type h));
          c1 = c\<lparr>counts := (counts c)[i := counts c ! i + 1]\<rparr>;
          c2 = (if message_total c1 = 0 then c1\<lparr>first_timestamp_ns := timestamp_ns h\<rparr>
                else if timestamp_ns h < last_timestamp_ns c1
                then c1\<lparr>backwards_timestamps := backwards_timestamps c1 + 1\<rparr>
                else c1);
          c3 = c2\<lparr>last_timestamp_ns := timestamp_ns h\<rparr>
      in c3\<lparr>message_total := message_total c3 + 1\<rparr>)"

definition census_system_event :: "system_event \<Rightarrow> census \<Rightarrow> census run" where
  "census_system_event m c =
     (let c' = note_header (se_header m) c
      in Inr (c'\<lparr>system_events := system_events c' @ [se_event_code m]\<rparr>))"

definition census_other :: "build \<Rightarrow> char \<Rightarrow> byte list \<Rightarrow> census \<Rightarrow> census run" where
  "census_other b ty record c =
     bind_run (decode_header b record) (\<lambda>h. Inr (note_header h c))"

definition census_handler :: "build \<Rightarrow> census handler" where
  "census_handler b =
     \<lparr>on_system_event = census_system_event,
      on_add_order = (\<lambda>m c. Inr (note_header (ao_header m) c)),
      on_add_order_with_mpid = (\<lambda>m c. Inr (note_header (ao_header (am_order m)) c)),
      on_order_executed = (\<lambda>m c. Inr (note_header (oe_header m) c)),
      on_order_executed_with_price = (\<lambda>m c. Inr (note_header (oe_header (op_executed m)) c)),
      on_order_cancel = (\<lambda>m c. Inr (note_header (oc_header m) c)),
      on_order_delete = (\<lambda>m c. Inr (note_header (od_header m) c)),
      on_order_replace = (\<lambda>m c. Inr (note_header (ore_header m) c)),
      on_trade_non_cross = (\<lambda>m c. Inr (note_header (tr_header m) c)),
      on_stock_directory = (\<lambda>m c. Inr (note_header (sd_header m) c)),
      on_other = census_other b\<rparr>"

definition census_count :: "char \<Rightarrow> census \<Rightarrow> u64" where
  "census_count type c = counts c ! unat (byte_of_char type)"

section \<open>The census of a list of messages\<close>

fun event_code_of :: "message \<Rightarrow> string" where
  "event_code_of (SystemEvent m) = [se_event_code m]"
| "event_code_of _ = []"

definition census_step :: "message \<Rightarrow> census \<Rightarrow> census" where
  "census_step m c = note_header (message_header m)
     (c\<lparr>system_events := system_events c @ event_code_of m\<rparr>)"

lemma note_header_events:
  "note_header h (c\<lparr>system_events := es\<rparr>) = (note_header h c)\<lparr>system_events := es\<rparr>"
  "system_events (note_header h c) = system_events c"
  by (simp_all add: note_header_def Let_def)

lemma deliver_census: "wf_message m \<Longrightarrow> deliver (census_handler b) m c = Inr (census_step m c)"
  by (cases m)
    (auto simp: census_handler_def census_system_event_def census_step_def note_header_events
      census_other_def decode_header_at valid_record_header_length)

interpretation census: counting_handler "census_handler b" message_total for b
proof
  fix m s s'
  show "wf_message m \<Longrightarrow> \<exists>s'. deliver (census_handler b) m s = Inr s' \<and> True"
    by (simp add: deliver_census)
  assume "deliver (census_handler b) m s = Inr s'"
  then show "message_total s' = message_total s + 1"
    by (cases m)
      (auto simp: census_handler_def census_system_event_def census_other_def note_header_def
        Let_def bind_run_Inr_iff)
qed

text \<open>The 256 counters tally the messages of their types.\<close>

interpretation census_type: tallying_handler "census_handler b" "\<lambda>c. length (counts c) = 256"
  "census_count ty" "\<lambda>m. msg_type (message_header m) = ty" for b ty
proof
  fix c c' :: census and m
  assume "length (counts c) = 256" "wf_message m" "deliver (census_handler b) m c = Inr c'"
  moreover have "unat (byte_of_char x) < 256" for x
    using unsigned_less [of "byte_of_char x", where ?'a = nat] by simp
  moreover have "byte_of_char x = byte_of_char y \<longleftrightarrow> x = y" for x y
    by (metis char_of_byte_of_char)
  ultimately show "length (counts c') = 256 \<and>
      census_count ty c' = census_count ty c + (if msg_type (message_header m) = ty then 1 else 0)"
    by (auto simp: deliver_census census_step_def note_header_def census_count_def Let_def
        nth_list_update word_unat_eq_iff [symmetric])
qed

fun descents :: "u64 list \<Rightarrow> nat" where
  "descents (x # y # ts) = (if y < x then 1 else 0) + descents (y # ts)"
| "descents _ = 0"

definition timestamps :: "message list \<Rightarrow> u64 list" where
  "timestamps ms = map (\<lambda>m. timestamp_ns (message_header m)) ms"

definition type_index :: "message \<Rightarrow> nat" where
  "type_index m = unat (byte_of_char (msg_type (message_header m)))"

definition census_of :: "message list \<Rightarrow> census" where
  "census_of ms =
     \<lparr>counts = map (\<lambda>i. of_nat (length (filter (\<lambda>m. type_index m = i) ms))) [0..<256],
      message_total = of_nat (length ms),
      backwards_timestamps = of_nat (descents (timestamps ms)),
      first_timestamp_ns = (if ms = [] then 0 else hd (timestamps ms)),
      last_timestamp_ns = (if ms = [] then 0 else last (timestamps ms)),
      system_events = concat (map event_code_of ms)\<rparr>"

lemma type_index_bound: "type_index m < 256"
  using unsigned_less [of "byte_of_char (msg_type (message_header m))", where ?'a = nat]
  by (simp add: type_index_def)

lemma descents_snoc:
  "descents (ts @ [t]) = descents ts + (if ts \<noteq> [] \<and> t < last ts then 1 else 0)"
  by (induction ts rule: descents.induct) auto

lemma descents_sorted: "descents ts = 0 \<longleftrightarrow> sorted ts"
  by (induction ts rule: descents.induct) (auto simp del: sorted_wrt.simps(2) simp: sorted1 sorted2 not_less)

lemma counts_snoc:
  "map (\<lambda>i. of_nat (length (filter (\<lambda>m. type_index m = i) (ms @ [m]))) :: u64) [0..<256] =
     (let xs = map (\<lambda>i. of_nat (length (filter (\<lambda>m. type_index m = i) ms))) [0..<256]
      in xs[type_index m := xs ! type_index m + 1])"
  using type_index_bound [of m]
  by (intro nth_equalityI) (auto simp: nth_list_update Let_def)

lemma census_of_snoc:
  assumes "length ms < 2 ^ 64"
  shows "census_step m (census_of ms) = census_of (ms @ [m])"
proof -
  have zero: "(of_nat (length ms) :: u64) = 0 \<longleftrightarrow> ms = []"
    using assms by (simp add: word_unat_eq_iff unsigned_of_nat take_bit_nat_eq_self)
  have ts: "timestamps (ms @ [m]) = timestamps ms @ [timestamp_ns (message_header m)]"
    "timestamps ms = [] \<longleftrightarrow> ms = []" "timestamps [] = []"
    by (simp_all add: timestamps_def)
  show ?thesis
  proof (rule census.equality)
    show "counts (census_step m (census_of ms)) = counts (census_of (ms @ [m]))"
      unfolding census_of_def census.simps counts_snoc
      by (simp add: census_step_def note_header_def Let_def type_index_def)
  qed (simp_all add: census_step_def census_of_def note_header_def zero Let_def ts descents_snoc)
qed

lemma fold_census:
  assumes "\<forall>m \<in> set ms. wf_message m" and "length ms \<le> 2 ^ 64"
  shows "fold_run (deliver (census_handler b)) ms initial_census = Inr (census_of ms)"
  using assms
proof (induction ms rule: rev_induct)
  case Nil
  then show ?case
    by (simp add: census_of_def initial_census_def timestamps_def map_replicate_const)
next
  case (snoc m ms)
  then show ?case by (simp add: fold_run_append deliver_census census_of_snoc)
qed

lemma parse_census:
  assumes "length file < 2 ^ 64" and "passes_asserts b file"
  shows "parse_all b file (census_handler b) initial_census =
    Inr (session_outcome file, census_of (session_messages file))"
  using fold_census [of "session_messages file" b] wf_session_messages assms(1)
    session_messages_length [of "file"]
  by (simp add: parse_all_deliver [OF assms(2)])

section \<open>Times of day\<close>

text \<open>\<open>snprintf\<close> keeps at most 31 characters in the 32-byte buffer.\<close>

definition format_time_of_day :: "u64 \<Rightarrow> string" where
  "format_time_of_day nanoseconds_since_midnight =
     (let total_seconds = nanoseconds_since_midnight div 1000000000;
          nanoseconds = nanoseconds_since_midnight mod 1000000000
      in take 31
        (zero_padded 2 (unat (total_seconds div 3600)) @ '':'' @
         zero_padded 2 (unat ((total_seconds div 60) mod 60)) @ '':'' @
         zero_padded 2 (unat (total_seconds mod 60)) @ ''.'' @
         zero_padded 9 (unat nanoseconds)))"

text \<open>Reading a time of day back, from its fixed-width end.\<close>

definition read_time_of_day :: "string \<Rightarrow> nat" where
  "read_time_of_day s =
     (let n = length s;
          hours = decimal_value (take (n - 16) s);
          minutes = decimal_value (subspan s (n - 15) 2);
          seconds = decimal_value (subspan s (n - 12) 2);
          nanoseconds = decimal_value (subspan s (n - 9) 9)
      in ((hours * 60 + minutes) * 60 + seconds) * 1000000000 + nanoseconds)"

text \<open>No 64-bit value is truncated, and the fields after the hours have their width.\<close>

lemma format_time_parts:
  fixes t :: u64
  defines "s \<equiv> unat t div 1000000000"
  shows "format_time_of_day t =
    zero_padded 2 (s div 3600) @ '':'' @ zero_padded 2 (s div 60 mod 60) @ '':'' @
    zero_padded 2 (s mod 60) @ ''.'' @ zero_padded 9 (unat t mod 1000000000)"
    and "length (zero_padded 2 (s div 60 mod 60)) = 2" "length (zero_padded 2 (s mod 60)) = 2"
    and "length (zero_padded 9 (unat t mod 1000000000)) = 9"
proof -
  have small: "n mod 60 < 10 ^ 2" for n :: nat
    using mod_less_divisor [of 60 n] by simp
  show w: "length (zero_padded 2 (s div 60 mod 60)) = 2" "length (zero_padded 2 (s mod 60)) = 2"
    "length (zero_padded 9 (unat t mod 1000000000)) = 9"
    by (rule length_padded; simp add: small)+
  have "unat t < 2 ^ LENGTH(64)" by (rule unsigned_less)
  then have "unat t < 1000000000 * (3600 * 10 ^ 7)" by simp
  then have "s < 3600 * 10 ^ 7" unfolding s_def by (simp only: div_less_iff_less_mult)
  then have "s div 3600 < 10 ^ 7" by (simp only: div_less_iff_less_mult)
  then have h: "length (zero_padded 2 (s div 3600)) \<le> 7" by (rule length_padded_le) simp_all
  show "format_time_of_day t =
    zero_padded 2 (s div 3600) @ '':'' @ zero_padded 2 (s div 60 mod 60) @ '':'' @
    zero_padded 2 (s mod 60) @ ''.'' @ zero_padded 9 (unat t mod 1000000000)"
  proof -
    have u: "unat (t div 1000000000) = s" "unat (t mod 1000000000) = unat t mod 1000000000"
      by (simp_all add: s_def unat_div unat_mod)
    have v: "unat (t div 1000000000 div 3600) = s div 3600"
      "unat (t div 1000000000 div 60 mod 60) = s div 60 mod 60"
      "unat (t div 1000000000 mod 60) = s mod 60"
      unfolding unat_div unat_mod by (simp_all add: s_def)
    show ?thesis
      unfolding format_time_of_day_def Let_def v u by (rule take_all) (use h w in simp)
  qed
qed

lemma read_format_time: "read_time_of_day (format_time_of_day t) = unat t"
proof -
  define s where "s = unat t div 1000000000"
  have "read_time_of_day (format_time_of_day t) =
      ((s div 3600 * 60 + s div 60 mod 60) * 60 + s mod 60) * 1000000000 + unat t mod 1000000000"
    using format_time_parts [of t, folded s_def]
    by (simp add: read_time_of_day_def Let_def subspan_skip subspan_here subspan_Cons subspan_all)
  moreover have "s = (s div 60) * 60 + s mod 60" by simp
  moreover have "s div 60 = s div 3600 * 60 + s div 60 mod 60"
    using div_mult_mod_eq [of "s div 60" 60] by (simp add: div_mult2_eq [symmetric])
  moreover have "unat t = s * 1000000000 + unat t mod 1000000000" by (simp add: s_def)
  ultimately show ?thesis by metis
qed

section \<open>The report\<close>

text \<open>The cases of the \<open>switch\<close>, and the empty string of its default.\<close>

definition type_descriptions :: "(char \<times> string) list" where
  "type_descriptions =
     [(CHR ''S'', ''System Event''), (CHR ''R'', ''Stock Directory''),
      (CHR ''H'', ''Stock Trading Action''), (CHR ''Y'', ''Reg SHO Restriction''),
      (CHR ''L'', ''Market Participant Position''), (CHR ''V'', ''MWCB Decline Level''),
      (CHR ''W'', ''MWCB Status''), (CHR ''K'', ''IPO Quoting Period Update''),
      (CHR ''J'', ''LULD Auction Collar''), (CHR ''h'', ''Operational Halt''),
      (CHR ''A'', ''Add Order''), (CHR ''F'', ''Add Order with MPID''),
      (CHR ''E'', ''Order Executed''), (CHR ''C'', ''Order Executed with Price''),
      (CHR ''X'', ''Order Cancel''), (CHR ''D'', ''Order Delete''),
      (CHR ''U'', ''Order Replace''), (CHR ''P'', ''Trade (non-cross)''),
      (CHR ''Q'', ''Cross Trade''), (CHR ''B'', ''Broken Trade''),
      (CHR ''I'', ''Net Order Imbalance Indicator''), (CHR ''N'', ''Retail Price Improvement'')]"

definition describe_type :: "char \<Rightarrow> string" where
  "describe_type type =
     (case map_of type_descriptions type of None \<Rightarrow> [] | Some words \<Rightarrow> words)"

text \<open>The rows of the table, before \<open>std::sort\<close> puts them in order of their counts.\<close>

definition present :: "census \<Rightarrow> (char \<times> u64) list" where
  "present c =
     map (\<lambda>type. (type, census_count type c))
       (filter (\<lambda>type. 0 < census_count type c) (map (\<lambda>i. char_of_byte (of_nat i)) [0..<256]))"

record verdicts =
  framed_completely :: bool
  counts_agree :: bool
  timestamps_monotonic :: bool
  session_complete :: bool

definition verdicts_of :: "nat \<Rightarrow> frame_outcome \<Rightarrow> census \<Rightarrow> verdicts" where
  "verdicts_of file_size outcome c =
     \<lparr>framed_completely = (complete outcome \<and> bytes_consumed outcome = file_size),
      counts_agree = (message_total c = of_nat (messages outcome)),
      timestamps_monotonic = (backwards_timestamps c = 0),
      session_complete = (system_events c = ''OSQMEC'')\<rparr>"

definition healthy :: "verdicts \<Rightarrow> bool" where
  "healthy v \<longleftrightarrow> framed_completely v \<and> counts_agree v \<and> timestamps_monotonic v"

lemma describe_type_iff: "describe_type c \<noteq> [] \<longleftrightarrow> spec_message_length c \<noteq> 0"
proof -
  have "describe_type c \<noteq> [] \<longleftrightarrow> c \<in> set (map fst type_descriptions)"
  proof (cases "map_of type_descriptions c")
    case None
    then show ?thesis using map_of_eq_None_iff [of type_descriptions c] by (simp add: describe_type_def)
  next
    case (Some words)
    then have mem: "(c, words) \<in> set type_descriptions" by (rule map_of_SomeD)
    have "\<forall>e \<in> set type_descriptions. snd e \<noteq> []"
      by (simp add: type_descriptions_def)
    with mem Some show ?thesis by (force simp: describe_type_def)
  qed
  also have "\<dots> \<longleftrightarrow> c \<in> set (map fst spec_length_entries)"
    by (simp only: type_descriptions_def spec_length_entries_def list.map fst_conv) auto
  also have "\<dots> \<longleftrightarrow> spec_message_length c \<noteq> 0"
  proof (cases "spec_message_length c = 0")
    case True
    have "(c, n) \<notin> set spec_length_entries" for n :: u16
    proof
      assume mem: "(c, n) \<in> set spec_length_entries"
      then have "n \<noteq> 0" using entry_bounds by fastforce
      from spec_message_length_iff [OF this, of c] mem True \<open>n \<noteq> 0\<close> show False by simp
    qed
    with True show ?thesis by auto
  next
    case False
    then have "(c, spec_message_length c) \<in> set spec_length_entries"
      by (simp flip: spec_message_length_iff)
    with False show ?thesis by force
  qed
  finally show ?thesis .
qed

lemma all_chars: "set (map (\<lambda>i. char_of_byte (of_nat i)) [0..<256]) = UNIV"
proof (intro equalityI subsetI UNIV_I)
  fix c
  have "unat (byte_of_char c) < 2 ^ LENGTH(8)" by (rule unsigned_less)
  then have "char_of_byte (of_nat (unat (byte_of_char c))) \<in>
      (\<lambda>i. char_of_byte (of_nat i)) ` {0..<256}"
    by (intro imageI) simp
  then show "c \<in> set (map (\<lambda>i. char_of_byte (of_nat i)) [0..<256])" by simp
qed

lemma set_present: "set (present c) = {(type, n). n = census_count type c \<and> 0 < n}"
  unfolding present_def set_map set_filter all_chars [unfolded set_map] by auto

lemma census_count_of:
  "census_count type (census_of ms) =
     of_nat (length (filter (\<lambda>m. msg_type (message_header m) = type) ms))"
proof -
  have "unat (byte_of_char type) < 2 ^ LENGTH(8)" by (rule unsigned_less)
  moreover have "type_index m = unat (byte_of_char type) \<longleftrightarrow> msg_type (message_header m) = type" for m
    unfolding type_index_def word_unat_eq_iff [symmetric] by (metis char_of_byte_of_char)
  ultimately show ?thesis by (simp add: census_count_def census_of_def)
qed

text \<open>The type of a message of a session is one the specification defines.\<close>

lemma session_message_type:
  assumes "m \<in> set (session_messages file)"
  shows "spec_message_length (msg_type (message_header m)) \<noteq> 0"
proof -
  have "wf_message m" using assms by (rule wf_session_messages)
  then have "valid_record (encode m)" "record_type (encode m) = msg_type (message_header m)"
    using valid_encode by simp_all
  then show ?thesis by (auto simp: valid_record_def)
qed

lemma present_described:
  assumes "(type, n) \<in> set (present (census_of (session_messages file)))"
  shows "describe_type type \<noteq> []"
proof -
  from assms have "filter (\<lambda>m. msg_type (message_header m) = type) (session_messages file) \<noteq> []"
    by (auto simp: set_present census_count_of)
  then obtain m where "m \<in> set (session_messages file)" "msg_type (message_header m) = type"
    by (auto simp: filter_empty_conv)
  then show ?thesis using session_message_type describe_type_iff by blast
qed

lemma healthy_iff:
  assumes "length file < 2 ^ 64"
  shows "healthy (verdicts_of (length file) (session_outcome file) (census_of (session_messages file)))
    \<longleftrightarrow> snd (split_frames file) = [] \<and> sorted (timestamps (session_messages file))"
proof -
  have bound: "descents ts \<le> length ts" for ts
    by (induction ts rule: descents.induct) auto
  have "descents (timestamps (session_messages file)) < 2 ^ 64"
    using bound [of "timestamps (session_messages file)"] assms session_messages_length [of "file"]
    by (simp add: timestamps_def)
  then have "(of_nat (descents (timestamps (session_messages file))) :: u64) = 0 \<longleftrightarrow>
      sorted (timestamps (session_messages file))"
    by (simp add: word_unat_eq_iff unsigned_of_nat take_bit_nat_eq_self descents_sorted)
  then show ?thesis
    by (auto simp: healthy_def verdicts_of_def complete_session_outcome
      bytes_consumed_session_outcome census_of_def)
qed

end
