(* ===== verification/Book_Safety.thy ===== *)
theory Book_Safety
  imports Book_Observations
begin

text \<open>
  Memory safety of the book for arbitrary feeds. \<open>rep_ok\<close> needs a feed that adds no
  resting reference twice and takes no more than rests; the weaker invariant \<open>anchored\<close>
  needs nothing of the feed. It says that every iterator in the lookup table points to a
  live node of an order with the table's reference. With it no message, and so no file,
  makes the book dereference a dead iterator: a release build always returns, and a debug
  build returns or stops at an assertion. The same holds with \<open>sound_book\<close>, which adds that no
  level is empty and so that the best prices are right. An order of a queue that the table
  does not lead to is \<open>orphaned\<close>, and stays so whatever follows.
\<close>

definition anchored :: "order_book \<Rightarrow> bool" where
  "anchored bk \<longleftrightarrow>
     heap_ok bk \<and>
     (\<forall>ref loc. table_find ref (orders bk) = Some loc \<longrightarrow>
        (\<exists>r. rests_at (side_levels (ol_side loc) bk) (ol_price loc) (ol_position loc) r \<and>
             ro_order_reference r = ref))"

lemma anchored_heap: "anchored bk \<Longrightarrow> heap_ok bk"
  by (simp add: anchored_def)

lemma rep_ok_anchored: "rep_ok bk \<Longrightarrow> anchored bk"
  by (auto simp: anchored_def rep_ok_def linked_def)

lemma anchored_stats [simp]: "anchored (bk\<lparr>book_stats := st\<rparr>) = anchored bk"
  by (simp add: anchored_def)

lemma anchored_locate [simp]: "anchored (bk\<lparr>locate := loc\<rparr>) = anchored bk"
proof -
  have sides: "side_levels sd (bk\<lparr>locate := loc\<rparr>) = side_levels sd bk" for sd
    by (cases sd) simp_all
  show ?thesis by (simp add: anchored_def heap_ok_def sides)
qed

lemma anchored_initial: "anchored initial_book"
  using rep_ok_anchored [OF rep_ok_initial [of 0]] by simp

lemma anchored_located:
  assumes "anchored bk" and "table_find ref (orders bk) = Some loc"
  obtains l r where "map_of (side_levels (ol_side loc) bk) (ol_price loc) = Some l"
    "map_of (pl_orders l) (ol_position loc) = Some r" "ro_order_reference r = ref"
    "ol_side loc = side_of_flag (ol_side loc = Buy)"
proof -
  obtain r where r: "rests_at (side_levels (ol_side loc) bk) (ol_price loc) (ol_position loc) r"
    "ro_order_reference r = ref"
    using assms by (auto simp: anchored_def)
  then obtain l where l: "map_of (side_levels (ol_side loc) bk) (ol_price loc) = Some l"
    "(ol_position loc, r) \<in> set (pl_orders l)"
    by (auto simp: rests_at_def)
  have "nodes_ok (next_node bk) l"
    using anchored_heap [OF assms(1)] l(1) by (auto simp: heap_ok_def nodes_of_side_ok_def)
  then have "map_of (pl_orders l) (ol_position loc) = Some r"
    using l(2) by (simp add: nodes_ok_def)
  moreover have "ol_side loc = side_of_flag (ol_side loc = Buy)"
    using l(1) by (cases "ol_side loc") (simp_all add: side_of_flag_def)
  ultimately show thesis by (rule that [OF l(1) _ r(2)])
qed

section \<open>Insertion and removal\<close>

lemma insert_anchored:
  assumes "anchored bk"
  shows "anchored (insert_on_side buy ref price shares bk)"
proof -
  define bk' where "bk' = insert_on_side buy ref price shares bk"
  note effect = insert_on_side_effect [OF anchored_heap [OF assms] bk'_def [symmetric] refl]
  note rests = rests_at_insert [OF anchored_heap [OF assms] bk'_def [symmetric]]
  have "\<exists>r. rests_at (side_levels (ol_side loc) bk') (ol_price loc) (ol_position loc) r \<and>
      ro_order_reference r = k" if "table_find k (orders bk') = Some loc" for k loc
  proof (cases "table_find k (orders bk) = Some loc")
    case True
    then obtain r where "rests_at (side_levels (ol_side loc) bk) (ol_price loc) (ol_position loc) r"
      "ro_order_reference r = k"
      using assms by (auto simp: anchored_def)
    then show ?thesis using rests by blast
  next
    case False
    then have "k = ref" "loc = \<lparr>ol_side = side_of_flag buy, ol_price = price, ol_position = next_node bk\<rparr>"
      using that by (auto simp: effect(2) table.find_emplace split: if_splits)
    then show ?thesis
      by (intro exI [of _ "\<lparr>ro_order_reference = ref, ro_shares = shares\<rparr>"]) (simp add: rests)
  qed
  then show ?thesis using effect(3) by (auto simp: anchored_def bk'_def)
qed

text \<open>An order other than one that goes still rests where it was, perhaps with fewer shares.\<close>

lemma rests_at_survives:
  assumes "changes_level sd p (reduced it r removed gone l) bk bk'"
    and "map_of (side_levels sd bk) p = Some l" and "(it, r) \<in> set (pl_orders l)"
    and "nodes_ok n l"
    and "rests_at (side_levels sd' bk) p' it' r'"
    and "gone \<longrightarrow> ro_order_reference r' \<noteq> ro_order_reference r"
  shows "\<exists>r''. rests_at (side_levels sd' bk') p' it' r'' \<and>
    ro_order_reference r'' = ro_order_reference r'"
proof (cases "sd' = sd \<and> p' = p")
  case False
  then show ?thesis using assms(5) by (auto simp: rests_at_changes [OF assms(1)])
next
  case True
  then have in_l: "(it', r') \<in> set (pl_orders l)"
    using assms(2,5) by (auto simp: rests_at_def)
  show ?thesis
  proof (cases "it' = it")
    case at: True
    then have "r' = r"
      using in_l assms(3,4) eq_key_imp_eq_value by (fastforce simp: nodes_ok_def)
    moreover from this have "\<not> gone" using assms(6) by auto
    ultimately show ?thesis
      using True at by (auto simp: rests_at_changes [OF assms(1)] rests_at_reduced [OF assms(4,3)])
  next
    case elsewhere: False
    then show ?thesis
      using True in_l by (auto simp: rests_at_changes [OF assms(1)] rests_at_reduced [OF assms(4,3)])
  qed
qed

lemma reduce_anchored:
  assumes "anchored bk" and "reduce_or_remove b ref sr ra bk = Inr bk'"
  shows "anchored bk'"
proof (cases "table_find ref (orders bk)")
  case None
  then show ?thesis using assms by (simp add: reduce_or_remove_def)
next
  case (Some loc)
  have heap: "heap_ok bk" using assms(1) by (rule anchored_heap)
  obtain l0 r0 where located: "map_of (side_levels (ol_side loc) bk) (ol_price loc) = Some l0"
    "map_of (pl_orders l0) (ol_position loc) = Some r0" "ro_order_reference r0 = ref"
    "ol_side loc = side_of_flag (ol_side loc = Buy)"
    by (rule anchored_located [OF assms(1) Some])
  obtain sd l r removed gone where sd: "sd = side_of_flag (ol_side loc = Buy)"
    and l: "map_of (side_levels sd bk) (ol_price loc) = Some l"
    and r: "(ol_position loc, r) \<in> set (pl_orders l)"
    and changes: "changes_level sd (ol_price loc) (reduced (ol_position loc) r removed gone l) bk bk'"
    and table: "orders bk' = (if gone then table_erase ref (orders bk) else orders bk)"
    and heap': "heap_ok bk'"
    by (rule reduce_or_remove_effect [OF heap assms(2) Some])
  have side: "sd = ol_side loc" using sd located(4) by simp
  have nodes: "nodes_ok (next_node bk) l"
    using heap l by (auto simp: heap_ok_def nodes_of_side_ok_def)
  have "r = r0"
    using located(1,2) l r nodes by (simp add: side nodes_ok_def)
  then have ref: "ro_order_reference r = ref" using located(3) by simp
  have "\<exists>r'. rests_at (side_levels (ol_side k) bk') (ol_price k) (ol_position k) r' \<and>
      ro_order_reference r' = ref'" if k: "table_find ref' (orders bk') = Some k" for ref' k
  proof -
    have old: "table_find ref' (orders bk) = Some k" and kept: "gone \<longrightarrow> ref' \<noteq> ref"
      using k by (auto simp: table table.find_erase split: if_splits)
    obtain r' where r': "rests_at (side_levels (ol_side k) bk) (ol_price k) (ol_position k) r'"
      "ro_order_reference r' = ref'"
      using assms(1) old by (auto simp: anchored_def)
    have "gone \<longrightarrow> ro_order_reference r' \<noteq> ro_order_reference r"
      using kept r'(2) ref by simp
    from rests_at_survives [OF changes l r nodes r'(1) this] show ?thesis using r'(2) by simp
  qed
  then show ?thesis using heap' by (simp add: anchored_def)
qed

lemma reduce_safe:
  assumes "anchored bk"
  shows "safe_result b anchored (reduce_or_remove b ref sr ra bk)"
proof (cases "reduce_or_remove b ref sr ra bk")
  case (Inr bk')
  then show ?thesis using reduce_anchored [OF assms] by simp
next
  case (Inl e)
  then obtain loc where loc: "table_find ref (orders bk) = Some loc"
    by (auto simp: reduce_or_remove_def split: option.splits)
  obtain l r where l: "map_of (side_levels (ol_side loc) bk) (ol_price loc) = Some l"
    and r: "map_of (pl_orders l) (ol_position loc) = Some r"
    and sd: "ol_side loc = side_of_flag (ol_side loc = Buy)"
    by (rule anchored_located [OF assms loc])
  have "map_of (side_levels (side_of_flag (ol_side loc = Buy)) bk) (ol_price loc) = Some l"
    using l by (simp flip: sd)
  note stops = book_side.reduce_or_remove_in_stops [OF book_side_order
      sorted_side [OF anchored_heap [OF assms]] this r]
  have "e = AssertFailed \<and> b = Debug"
    using Inl unfolding reduce_or_remove_put [OF loc refl]
    by (auto simp: map_run_def split: sum.splits dest: stops)
  then show ?thesis using Inl by (simp add: safe_result_def)
qed

section \<open>The handler\<close>

lemma safe_stats:
  assumes "safe_result b anchored m"
  shows "safe_result b anchored (bind_run m (\<lambda>bk'. Inr (bk'\<lparr>book_stats := f bk'\<rparr>)))"
  using assms by (rule safe_result_bind) simp

lemma book_add_safe: "anchored bk \<Longrightarrow> safe_result b anchored (book_add m bk)"
  by (simp add: book_add_def Let_def insert_anchored)

lemma book_executed_safe: "anchored bk \<Longrightarrow> safe_result b anchored (book_executed b m bk)"
  by (simp add: book_executed_def reduce_safe safe_stats)

lemma book_replace_safe: "anchored bk \<Longrightarrow> safe_result b anchored (book_replace b m bk)"
  by (auto simp: book_replace_def Let_def insert_anchored split: option.split
      intro!: safe_result_bind [OF reduce_safe])

lemma deliver_book_safe:
  assumes "anchored bk"
  shows "safe_result b anchored (deliver (book_handler b) m bk)"
  using assms
  by (cases m)
    (simp_all add: book_handler_def book_add_safe book_add_with_mpid_def book_executed_safe
      book_executed_with_price_def book_cancel_def book_delete_def reduce_safe safe_stats
      book_replace_safe book_trade_def)

interpretation book_safe: safe_handler b "book_handler b" anchored for b
  by unfold_locales (rule deliver_book_safe)

interpretation book_release: total_handler "book_handler Release" anchored
  using deliver_book_safe [of _ Release]
  by unfold_locales (simp add: safe_result_Release)

section \<open>Any feed at all\<close>

text \<open>No level is left behind without an order: the code erases a level when its queue empties.\<close>

definition levels_filled :: "order_book \<Rightarrow> bool" where
  "levels_filled bk \<longleftrightarrow> (\<forall>sd p l. map_of (side_levels sd bk) p = Some l \<longrightarrow> pl_orders l \<noteq> [])"

lemma levels_filled_changes:
  assumes "changes_level sd p l bk bk'" and "levels_filled bk"
  shows "levels_filled bk'"
  unfolding levels_filled_def
proof (intro allI impI)
  fix sd' p' l'
  assume "map_of (side_levels sd' bk') p' = Some l'"
  then show "pl_orders l' \<noteq> []"
    using assms
    by (cases "sd' = sd") (auto simp: changes_level_def replace_level_def levels_filled_def split: if_splits)
qed

definition sound_book :: "u16 \<Rightarrow> order_book \<Rightarrow> bool" where
  "sound_book loc bk \<longleftrightarrow> anchored bk \<and> levels_filled bk \<and> locate bk = loc"

interpretation book_sound: book_preserved "sound_book loc" for loc
proof
  fix bk buy ref price shares
  assume sound: "sound_book loc bk"
  then have heap: "heap_ok bk" by (simp add: sound_book_def anchored_heap)
  note effect = insert_on_side_effect [OF heap refl refl, where buy = buy and ref = ref and price = price and shares = shares]
  show "sound_book loc (insert_on_side buy ref price shares bk)"
    using sound effect(5) levels_filled_changes [OF effect(1)]
    by (simp add: sound_book_def insert_anchored)
next
  fix bk b ref sr ra bk'
  assume sound: "sound_book loc bk" and run: "reduce_or_remove b ref sr ra bk = Inr bk'"
  then have heap: "heap_ok bk" by (simp add: sound_book_def anchored_heap)
  show "sound_book loc bk'"
  proof (cases "table_find ref (orders bk)")
    case None
    then show ?thesis using sound run by (simp add: reduce_or_remove_def)
  next
    case (Some k)
    have "anchored bk'" using reduce_anchored [OF _ run] sound by (simp add: sound_book_def)
    with sound show ?thesis
      by (rule_tac reduce_or_remove_effect [OF heap run Some])
        (auto simp: sound_book_def dest: levels_filled_changes)
  qed
qed (simp add: sound_book_def levels_filled_def)

lemma sound_book_initial: "sound_book loc (initial_book\<lparr>locate := loc\<rparr>)"
proof -
  have "side_levels sd (initial_book\<lparr>locate := loc\<rparr>) = []" for sd
    by (cases sd) (simp_all add: initial_book_def)
  then show ?thesis using anchored_initial by (simp add: sound_book_def levels_filled_def)
qed

interpretation book_sound_safe: safe_handler b "book_handler b" "sound_book loc" for b loc
proof
  fix bk m
  assume sound: "sound_book loc bk"
  then have "safe_result b anchored (deliver (book_handler b) m bk)"
    by (simp add: sound_book_def deliver_book_safe)
  then show "safe_result b (sound_book loc) (deliver (book_handler b) m bk)"
    using book_sound.deliver_keeps [OF sound] by (auto simp: safe_result_def)
qed

lemma sound_book_best:
  assumes "sound_book loc bk"
  shows "best_at bid_before (bids bk) (best_bid bk)" and "best_at ask_before (asks bk) (best_ask bk)"
proof -
  have heap: "heap_ok bk" using assms by (simp add: sound_book_def anchored_heap)
  have filled: "pl_orders l \<noteq> []" if "map_of (side_levels sd bk) p = Some l" for sd p l
    using assms that by (auto simp: sound_book_def levels_filled_def)
  show "best_at bid_before (bids bk) (best_bid bk)"
    unfolding best_bid_def
    by (rule best_level_filled) (use heap filled [of Buy] in \<open>simp_all add: heap_ok_def\<close>)
  show "best_at ask_before (asks bk) (best_ask bk)"
    unfolding best_ask_def
    by (rule best_level_filled) (use heap filled [of Sell] in \<open>simp_all add: heap_ok_def\<close>)
qed

section \<open>Orders no table entry leads to\<close>

text \<open>
  An order in a queue that the lookup table does not lead to. Every operation goes through
  the table, so nothing ever touches the order again.
\<close>

definition orphaned :: "side \<Rightarrow> price_ticks \<Rightarrow> node \<Rightarrow> resting_order \<Rightarrow> order_book \<Rightarrow> bool" where
  "orphaned sd p it r bk \<longleftrightarrow>
     anchored bk \<and> rests_at (side_levels sd bk) p it r \<and>
     (\<forall>ref. table_find ref (orders bk) \<noteq> Some \<lparr>ol_side = sd, ol_price = p, ol_position = it\<rparr>)"

lemma orphaned_stats [simp]: "orphaned sd p it r (bk\<lparr>book_stats := st\<rparr>) = orphaned sd p it r bk"
  by (simp add: orphaned_def)

lemma rests_at_allocated: "heap_ok bk \<Longrightarrow> rests_at (side_levels sd bk) p it r \<Longrightarrow> it < next_node bk"
  by (force simp: rests_at_def heap_ok_def nodes_of_side_ok_def nodes_ok_def)

lemma orphaned_insert:
  assumes "orphaned sd p it r bk"
  shows "orphaned sd p it r (insert_on_side buy ref price shares bk)"
proof -
  have heap: "heap_ok bk" using assms by (simp add: orphaned_def anchored_heap)
  have "it \<noteq> next_node bk" using assms rests_at_allocated [OF heap] by (auto simp: orphaned_def)
  then show ?thesis
    using assms insert_on_side_effect(2) [OF heap refl refl, where buy = buy and ref = ref and price = price and shares = shares]
    by (auto simp: orphaned_def insert_anchored rests_at_insert [OF heap refl] table.find_emplace
        split: if_splits)
qed

lemma orphaned_reduce:
  assumes "orphaned sd p it r bk" and run: "reduce_or_remove b ref sr ra bk = Inr bk'"
  shows "orphaned sd p it r bk'"
proof (cases "table_find ref (orders bk)")
  case None
  then show ?thesis using assms by (simp add: reduce_or_remove_def)
next
  case (Some k)
  have anchored: "anchored bk" and heap: "heap_ok bk" using assms(1) by (simp_all add: orphaned_def anchored_heap)
  have side: "ol_side k = side_of_flag (ol_side k = Buy)" by (rule anchored_located [OF anchored Some])
  show ?thesis
  proof (rule reduce_or_remove_effect [OF heap run Some])
    fix sd' l r' removed gone
    assume sd': "sd' = side_of_flag (ol_side k = Buy)"
      and l: "map_of (side_levels sd' bk) (ol_price k) = Some l" "(ol_position k, r') \<in> set (pl_orders l)"
      and changes: "changes_level sd' (ol_price k) (reduced (ol_position k) r' removed gone l) bk bk'"
      and table: "orders bk' = (if gone then table_erase ref (orders bk) else orders bk)"
    have nodes: "nodes_ok (next_node bk) l" using heap l(1) by (auto simp: heap_ok_def nodes_of_side_ok_def)
    have "\<not> (sd = sd' \<and> p = ol_price k \<and> it = ol_position k)"
      using assms(1) Some sd' side by (cases k) (auto simp: orphaned_def)
    moreover have rests: "rests_at (side_levels sd bk) p it r"
      using assms(1) by (simp add: orphaned_def)
    moreover have "sd = sd' \<Longrightarrow> p = ol_price k \<Longrightarrow> (it, r) \<in> set (pl_orders l)"
      using rests l(1) by (auto simp: rests_at_def)
    ultimately have "rests_at (side_levels sd bk') p it r"
      by (auto simp: rests_at_changes [OF changes] rests_at_reduced [OF nodes l(2)])
    moreover have "anchored bk'" by (rule reduce_anchored [OF anchored run])
    ultimately show ?thesis
      using assms(1) by (auto simp: orphaned_def table table.find_erase split: if_splits)
  qed
qed

interpretation orphan: book_preserved "orphaned sd p it r" for sd p it r
  by unfold_locales (auto intro: orphaned_insert orphaned_reduce)

lemma orphaned_not_rep_ok: "orphaned sd p it r bk \<Longrightarrow> \<not> rep_ok bk"
proof
  assume orphan: "orphaned sd p it r bk" and "rep_ok bk"
  then have "table_find (ro_order_reference r) (orders bk) =
      Some \<lparr>ol_side = sd, ol_price = p, ol_position = it\<rparr>"
    by (auto simp: orphaned_def rep_ok_def linked_def)
  with orphan show False by (simp add: orphaned_def)
qed

end
