(* ===== verification/Book_Replay.thy ===== *)
theory Book_Replay
  imports Book_Safety
begin

text \<open>
  \<open>tools/book_replay.cpp\<close>: the handler that waits for the Stock Directory message of a
  symbol, hands everything else to the book, and the report of \<open>main\<close>. The main lemma
  states the report in terms of the abstract book run on the messages after the
  announcement. Opening the file is a parameter of \<open>book_replay_main\<close>; the report is the
  record of the values printed; \<open>Replay_Report\<close> has their text.
\<close>

section \<open>The handler\<close>

record replay_state =
  rp_book :: order_book
  rp_symbol :: string
  rp_resolved :: bool

definition initial_replay :: "string \<Rightarrow> replay_state" where
  "initial_replay symbol = \<lparr>rp_book = initial_book, rp_symbol = symbol, rp_resolved = False\<rparr>"

definition replay_stock_directory ::
  "build \<Rightarrow> stock_directory \<Rightarrow> replay_state \<Rightarrow> replay_state run" where
  "replay_stock_directory b m s =
     (if \<not> rp_resolved s \<and> trim (sd_stock m) = rp_symbol s then
        bind_run (set_locate b (stock_locate (sd_header m)) (rp_book s))
          (\<lambda>bk. Inr (s\<lparr>rp_book := bk, rp_resolved := True\<rparr>))
      else Inr s)"

text \<open>\<open>book_.on(message)\<close>.\<close>

definition on_book :: "('m \<Rightarrow> order_book \<Rightarrow> order_book run) \<Rightarrow> 'm \<Rightarrow> replay_state \<Rightarrow> replay_state run"
  where
  "on_book f m s = bind_run (f m (rp_book s)) (\<lambda>bk. Inr (s\<lparr>rp_book := bk\<rparr>))"

definition replay_handler :: "build \<Rightarrow> replay_state handler" where
  "replay_handler b =
     \<lparr>on_system_event = on_book (on_system_event (book_handler b)),
      on_add_order = on_book (on_add_order (book_handler b)),
      on_add_order_with_mpid = on_book (on_add_order_with_mpid (book_handler b)),
      on_order_executed = on_book (on_order_executed (book_handler b)),
      on_order_executed_with_price = on_book (on_order_executed_with_price (book_handler b)),
      on_order_cancel = on_book (on_order_cancel (book_handler b)),
      on_order_delete = on_book (on_order_delete (book_handler b)),
      on_order_replace = on_book (on_order_replace (book_handler b)),
      on_trade_non_cross = on_book (on_trade_non_cross (book_handler b)),
      on_stock_directory = replay_stock_directory b,
      on_other = (\<lambda>_ _. Inr)\<rparr>"

section \<open>The report\<close>

record replay_report =
  rr_symbol :: string
  rr_locate :: u16
  rr_stats :: stats
  rr_resting_orders :: nat
  rr_bid_levels :: nat
  rr_ask_levels :: nat
  rr_best_bid :: "book_level option"
  rr_best_ask :: "book_level option"
  rr_stopped :: "(frame_error \<times> nat) option"

definition stopped_of :: "frame_outcome \<Rightarrow> (frame_error \<times> nat) option" where
  "stopped_of outcome = map_option (\<lambda>e. (e, error_offset outcome)) (frame_error outcome)"

definition report_of :: "string \<Rightarrow> order_book \<Rightarrow> frame_outcome \<Rightarrow> replay_report" where
  "report_of symbol book outcome =
     \<lparr>rr_symbol = symbol, rr_locate = locate book, rr_stats = book_stats book,
      rr_resting_orders = order_count book, rr_bid_levels = bid_level_count book,
      rr_ask_levels = ask_level_count book, rr_best_bid = best_bid book,
      rr_best_ask = best_ask book, rr_stopped = stopped_of outcome\<rparr>"

text \<open>The exit code and what is printed on the standard output, if anything is.\<close>

definition book_replay_main ::
  "build \<Rightarrow> (string \<Rightarrow> string + byte list) \<Rightarrow> string list \<Rightarrow> (int \<times> replay_report option) run" where
  "book_replay_main b open_file argv =
     (case argv of
        [program, path, symbol] \<Rightarrow>
          (case open_file path of
             Inl what \<Rightarrow> Inr (2, None)
           | Inr file \<Rightarrow>
               bind_run (parse_all b file (replay_handler b) (initial_replay symbol))
                 (\<lambda>(outcome, s).
                   Inr (if \<not> rp_resolved s then (1, None)
                        else (if complete outcome then 0 else 1,
                              Some (report_of symbol (rp_book s) outcome)))))
      | _ \<Rightarrow> Inr (2, None))"

section \<open>Before and after the announcement\<close>

fun announces :: "string \<Rightarrow> message \<Rightarrow> bool" where
  "announces symbol (StockDirectory m) \<longleftrightarrow> trim (sd_stock m) = symbol"
| "announces symbol _ \<longleftrightarrow> False"

text \<open>The messages a book of a locate takes up.\<close>

definition concerns :: "u16 \<Rightarrow> message \<Rightarrow> bool" where
  "concerns loc m \<longleftrightarrow>
     stock_locate (message_header m) = loc \<and>
     msg_type (message_header m) \<in> set ''AFECXDUP''"

text \<open>The tool before the announcement of its symbol.\<close>

definition waiting :: "string \<Rightarrow> message \<Rightarrow> bool" where
  "waiting symbol m \<longleftrightarrow> \<not> announces symbol m \<and> \<not> concerns 0 m"

lemma book_ignores:
  assumes "wf_message m" and "\<not> concerns (locate bk) m"
  shows "deliver (book_handler b) m bk = Inr bk"
  using assms
  by (cases m)
    (auto simp: concerns_def book_handler_def book_add_def book_add_with_mpid_def
      book_executed_def book_executed_with_price_def book_cancel_def book_delete_def
      book_replace_def book_trade_def)

lemma replay_waits:
  assumes "wf_message m" and "waiting symbol m"
  shows "deliver (replay_handler b) m (initial_replay symbol) = Inr (initial_replay symbol)"
proof -
  have "\<not> concerns (locate initial_book) m" using assms(2) by (simp add: waiting_def initial_book_def)
  from book_ignores [OF assms(1) this, of b] show ?thesis
    using assms(2)
    by (cases m)
      (auto simp: replay_handler_def on_book_def initial_replay_def replay_stock_directory_def waiting_def)
qed

lemma fold_replay_waits:
  assumes "\<forall>m \<in> set ms. wf_message m \<and> waiting symbol m"
  shows "fold_run (deliver (replay_handler b)) ms (initial_replay symbol) =
    Inr (initial_replay symbol)"
  using assms by (induction ms) (simp_all add: replay_waits)

lemma replay_forwards:
  assumes "rp_resolved s"
  shows "deliver (replay_handler b) m s =
    map_run (\<lambda>bk. s\<lparr>rp_book := bk\<rparr>) (deliver (book_handler b) m (rp_book s))"
  using assms
  by (cases m)
    (simp_all add: replay_handler_def on_book_def replay_stock_directory_def book_handler_def
      map_run_def bind_run_def)

lemma fold_replay_forwards:
  "rp_resolved s \<Longrightarrow>
     fold_run (deliver (replay_handler b)) ms s =
       map_run (\<lambda>bk. s\<lparr>rp_book := bk\<rparr>) (fold_run (deliver (book_handler b)) ms (rp_book s))"
proof (induction ms arbitrary: s)
  case Nil
  then show ?case by simp
next
  case (Cons m ms)
  then show ?case
    by (cases "deliver (book_handler b) m (rp_book s)")
      (simp_all add: replay_forwards [OF Cons.prems])
qed

lemma replay_announced:
  assumes "announces symbol (StockDirectory d)" and "stock_locate (sd_header d) = loc" and "loc \<noteq> 0"
  shows "deliver (replay_handler b) (StockDirectory d) (initial_replay symbol) =
    Inr \<lparr>rp_book = book_for loc, rp_symbol = symbol, rp_resolved = True\<rparr>"
  using assms
  by (simp add: replay_handler_def replay_stock_directory_def initial_replay_def set_locate_def
      book_for_def)
    (simp add: initial_book_def)

section \<open>The report of the abstract book\<close>

definition spec_report :: "string \<Rightarrow> u16 \<Rightarrow> spec_book \<Rightarrow> frame_outcome \<Rightarrow> replay_report" where
  "spec_report symbol loc s outcome =
     \<lparr>rr_symbol = symbol, rr_locate = loc, rr_stats = sp_stats s,
      rr_resting_orders = length (sp_orders s),
      rr_bid_levels = card (spec_prices Buy (sp_orders s)),
      rr_ask_levels = card (spec_prices Sell (sp_orders s)),
      rr_best_bid = spec_best_bid (sp_orders s),
      rr_best_ask = spec_best_ask (sp_orders s), rr_stopped = stopped_of outcome\<rparr>"

lemma report_represents:
  "represents loc bk s \<Longrightarrow> report_of symbol bk outcome = spec_report symbol loc s outcome"
  using represents_order_count [of loc bk s] represents_level_counts [of loc bk s]
    represents_best_bid [of loc bk s] represents_best_ask [of loc bk s]
  by (simp add: report_of_def spec_report_def) (simp add: represents_def)

lemma fold_replay:
  assumes "\<forall>m \<in> set pre. wf_message m \<and> waiting symbol m"
    and "announces symbol (StockDirectory d)" and "stock_locate (sd_header d) = loc" and "loc \<noteq> 0"
    and "spec_admits_all loc spec_initial rest"
  shows "\<exists>bk. represents loc bk (spec_run loc rest spec_initial) \<and>
    fold_run (deliver (replay_handler b)) (pre @ StockDirectory d # rest) (initial_replay symbol) =
      Inr \<lparr>rp_book = bk, rp_symbol = symbol, rp_resolved = True\<rparr>"
proof -
  obtain bk where "fold_run (deliver (book_handler b)) rest (book_for loc) = Inr bk"
    "represents loc bk (spec_run loc rest spec_initial)"
    using run_represents [OF represents_initial assms(5), of b] by auto
  then show ?thesis
    by (simp add: fold_run_append fold_replay_waits [OF assms(1)] replay_announced [OF assms(2-4), unfolded deliver.simps]
        fold_replay_forwards)
qed

lemma book_replay_reports:
  assumes "open_file path = Inr file" and "passes_asserts b file"
    and "session_messages file = pre @ StockDirectory d # rest"
    and "\<forall>m \<in> set pre. waiting symbol m"
    and "announces symbol (StockDirectory d)" and "stock_locate (sd_header d) = loc" and "loc \<noteq> 0"
    and "spec_admits_all loc spec_initial rest"
  shows "book_replay_main b open_file [program, path, symbol] =
    Inr (if complete (session_outcome file) then 0 else 1,
         Some (spec_report symbol loc (spec_run loc rest spec_initial) (session_outcome file)))"
proof -
  have "\<forall>m \<in> set pre. wf_message m \<and> waiting symbol m"
    using assms(3,4) wf_session_messages [of _ "file"] by simp
  from fold_replay [OF this assms(5-8), of b] show ?thesis
    using assms(1) report_represents
    by (auto simp: book_replay_main_def parse_all_deliver [OF assms(2)] assms(3))
qed

lemma book_replay_unresolved:
  assumes "open_file path = Inr file" and "passes_asserts b file"
    and "\<forall>m \<in> set (session_messages file). waiting symbol m"
  shows "book_replay_main b open_file [program, path, symbol] = Inr (1, None)"
proof -
  have "\<forall>m \<in> set (session_messages file). wf_message m \<and> waiting symbol m"
    using assms(3) wf_session_messages by blast
  from fold_replay_waits [OF this, of b] show ?thesis
    using assms(1)
    by (simp add: book_replay_main_def parse_all_deliver [OF assms(2)])
      (simp add: initial_replay_def)
qed

section \<open>The announcement is never missed\<close>

lemma deliver_resolves:
  assumes "deliver (replay_handler b) m s = Inr s'"
  shows "rp_symbol s' = rp_symbol s"
    and "rp_resolved s \<or> announces (rp_symbol s) m \<Longrightarrow> rp_resolved s'"
  using assms
  by (cases m;
      auto simp: replay_handler_def on_book_def replay_stock_directory_def bind_run_Inr_iff
        split: if_splits)+

lemma fold_resolves:
  assumes "fold_run (deliver (replay_handler b)) ms s = Inr s'"
    and "rp_resolved s \<or> (\<exists>m \<in> set ms. announces (rp_symbol s) m)"
  shows "rp_resolved s'"
  using assms
proof (induction ms arbitrary: s)
  case (Cons m ms)
  obtain s1 where first: "deliver (replay_handler b) m s = Inr s1"
    and rest: "fold_run (deliver (replay_handler b)) ms s1 = Inr s'"
    using Cons.prems(1) by (auto simp: bind_run_Inr_iff)
  show ?case
    by (rule Cons.IH [OF rest]) (use Cons.prems(2) deliver_resolves [OF first] in auto)
qed simp

lemma book_replay_main_resolves:
  assumes "open_file path = Inr file" and "\<exists>m \<in> set (session_messages file). announces symbol m"
    and "book_replay_main b open_file [program, path, symbol] = Inr (code, report)"
  shows "\<exists>r. report = Some r \<and> rr_symbol r = symbol \<and> (code = 0 \<longleftrightarrow> complete (session_outcome file))"
proof -
  obtain out s where run: "parse_all b file (replay_handler b) (initial_replay symbol) = Inr (out, s)"
    and result: "(code, report) = (if \<not> rp_resolved s then (1, None)
        else (if complete out then 0 else 1, Some (report_of symbol (rp_book s) out)))"
    using assms(1,3) by (auto simp: book_replay_main_def bind_run_Inr_iff)
  have "rp_resolved s"
    by (rule fold_resolves [OF parse_all_Inr(3) [OF run]]) (use assms(2) in \<open>simp add: initial_replay_def\<close>)
  then show ?thesis using result parse_all_Inr(2) [OF run] by (simp add: report_of_def)
qed

section \<open>Safety for any file\<close>

definition replay_anchored :: "string \<Rightarrow> replay_state \<Rightarrow> bool" where
  "replay_anchored symbol s \<longleftrightarrow> anchored (rp_book s) \<and> rp_symbol s = symbol"

lemma replay_anchored_initial: "replay_anchored symbol (initial_replay symbol)"
  by (simp add: replay_anchored_def initial_replay_def anchored_initial)

lemma set_locate_safe: "anchored bk \<Longrightarrow> safe_result b anchored (set_locate b loc bk)"
  by (cases b) (auto simp: set_locate_def safe_result_def assert_run_def)

lemma deliver_replay_safe:
  assumes "replay_anchored symbol s"
  shows "safe_result b (replay_anchored symbol) (deliver (replay_handler b) m s)"
proof -
  have book: "safe_result b anchored (deliver (book_handler b) m (rp_book s))"
    using assms by (simp add: replay_anchored_def deliver_book_safe)
  have directory: "safe_result b (replay_anchored symbol) (replay_stock_directory b d s)" for d
    using assms
    by (auto simp: replay_stock_directory_def replay_anchored_def
        intro!: safe_result_bind [OF set_locate_safe])
  show ?thesis
    using book directory assms
    by (cases m)
      (auto simp: replay_handler_def on_book_def replay_anchored_def safe_result_def)
qed

interpretation replay_safe: safe_handler b "replay_handler b" "replay_anchored symbol" for b symbol
  by unfold_locales (rule deliver_replay_safe)

lemma book_replay_main_safe:
  "safe_result b (\<lambda>_. True) (book_replay_main b open_file argv)"
proof -
  have "safe_result b (\<lambda>_. True)
      (bind_run (parse_all b file (replay_handler b) (initial_replay symbol))
        (\<lambda>(outcome, s). Inr (f outcome s)))" for "file" symbol
      and f :: "frame_outcome \<Rightarrow> replay_state \<Rightarrow> int \<times> replay_report option"
    by (rule safe_result_bind [OF replay_safe.session_safe [OF replay_anchored_initial]]) auto
  then show ?thesis
    by (simp add: book_replay_main_def split: list.split sum.split)
qed

end
