(* ===== verification/Book_Isolation.thy ===== *)
theory Book_Isolation
  imports Book_Replay
begin

text \<open>
  The book and the rest of the session. The header promises that a book fed a whole session
  filters down to its own symbol: the state after a file depends on the messages of the
  book's locate alone, whatever other symbols' messages stand between them.
\<close>

section \<open>Skipping what changes nothing\<close>

lemma fold_run_filter:
  assumes "I s"
    and "\<And>x s s'. x \<in> set xs \<Longrightarrow> I s \<Longrightarrow> f x s = Inr s' \<Longrightarrow> I s'"
    and "\<And>x s. x \<in> set xs \<Longrightarrow> I s \<Longrightarrow> \<not> P x \<Longrightarrow> f x s = Inr s"
  shows "fold_run f xs s = fold_run f (filter P xs) s"
  using assms
proof (induction xs arbitrary: s)
  case (Cons x xs)
  have rest: "fold_run f xs t = fold_run f (filter P xs) t" if "I t" for t
    by (rule Cons.IH [OF that]) (use Cons.prems(2,3) list.set_intros(2) in metis)+
  have "P x \<or> f x s = Inr s" using Cons.prems(3) [OF _ Cons.prems(1), of x] by auto
  moreover have "I t" if "f x s = Inr t" for t
    by (rule Cons.prems(2) [OF _ Cons.prems(1) that]) simp
  ultimately show ?case
    using rest Cons.prems(1) by (cases "f x s"; cases "P x") simp_all
qed simp

section \<open>The locate is fixed\<close>

lemma insert_locate [simp]: "locate (insert_on_side buy ref price shares bk) = locate bk"
  by (simp add: insert_on_side_def split: prod.split)

lemma reduce_locate: "reduce_or_remove b ref sr ra bk = Inr bk' \<Longrightarrow> locate bk' = locate bk"
  by (auto simp: reduce_or_remove_def bind_run_Inr_iff split: option.splits if_splits)

lemma deliver_locate:
  assumes "deliver (book_handler b) m bk = Inr bk'"
  shows "locate bk' = locate bk"
  using assms
  by (cases m)
    (auto simp: book_handler_def book_add_def book_add_with_mpid_def book_executed_def
      book_executed_with_price_def book_cancel_def book_delete_def book_replace_def book_trade_def
      bind_run_Inr_iff Let_def split: if_splits option.splits dest: reduce_locate)

section \<open>The session of one locate\<close>

definition own_messages :: "u16 \<Rightarrow> message list \<Rightarrow> message list" where
  "own_messages loc = filter (concerns loc)"

lemma fold_own_messages:
  assumes "\<forall>m \<in> set ms. wf_message m"
  shows "fold_run (deliver (book_handler b)) ms bk =
    fold_run (deliver (book_handler b)) (own_messages (locate bk) ms) bk"
  unfolding own_messages_def
  by (rule fold_run_filter [where I = "\<lambda>s. locate s = locate bk"])
    (use assms deliver_locate book_ignores in \<open>fastforce+\<close>)

lemma parse_own_messages:
  assumes "passes_asserts b file"
  shows "parse_all b file (book_handler b) bk =
    map_run (Pair (session_outcome file))
      (fold_run (deliver (book_handler b)) (own_messages (locate bk) (session_messages file)) bk)"
  using fold_own_messages [of "session_messages file" b bk]
  by (simp add: parse_all_deliver [OF assms] wf_session_messages)

end
