(* ===== verification/Session_Totals.thy ===== *)
theory Session_Totals
  imports Itch_Count Book_Isolation
begin

text \<open>
  The two tools on one file. \<open>itch_count\<close> counts the messages of every type, \<open>book_replay\<close> the
  messages its book acts on; the books of all 65536 locates together account for every order
  message of the session. Each tally of a book is a tally of its own locate's messages of
  some types, and the locates partition the session.
\<close>

section \<open>What a book tallies\<close>

definition own_of_type :: "u16 \<Rightarrow> string \<Rightarrow> message \<Rightarrow> bool" where
  "own_of_type loc types m \<longleftrightarrow>
     stock_locate (message_header m) = loc \<and> msg_type (message_header m) \<in> set types"

lemma insert_stats [simp]: "book_stats (insert_on_side buy ref price shares bk) = book_stats bk"
  by (simp add: insert_on_side_def split: prod.split)

lemma reduce_stats: "reduce_or_remove b ref sr ra bk = Inr bk' \<Longrightarrow> book_stats bk' = book_stats bk"
  by (auto simp: reduce_or_remove_def bind_run_Inr_iff split: option.splits if_splits)

lemma other_type:
  assumes "wf_message (Other ty record)"
  shows "msg_type (message_header (Other ty record)) \<notin> set decoded_types"
  using assms valid_encode [OF assms] by simp

lemma handler_stats:
  "book_add ma bk = Inr bk' \<Longrightarrow> book_stats bk' =
     (if stock_locate (ao_header ma) = locate bk
      then (book_stats bk)\<lparr>adds := adds (book_stats bk) + 1\<rparr> else book_stats bk)"
  "book_executed b me bk = Inr bk' \<Longrightarrow> book_stats bk' =
     (if stock_locate (oe_header me) = locate bk
      then (book_stats bk)\<lparr>executions := executions (book_stats bk) + 1\<rparr> else book_stats bk)"
  "book_cancel b mx bk = Inr bk' \<Longrightarrow> book_stats bk' =
     (if stock_locate (oc_header mx) = locate bk
      then (book_stats bk)\<lparr>cancels := cancels (book_stats bk) + 1\<rparr> else book_stats bk)"
  "book_delete b md bk = Inr bk' \<Longrightarrow> book_stats bk' =
     (if stock_locate (od_header md) = locate bk
      then (book_stats bk)\<lparr>deletes := deletes (book_stats bk) + 1\<rparr> else book_stats bk)"
  "book_trade mt bk = Inr bk' \<Longrightarrow> book_stats bk' =
     (if stock_locate (tr_header mt) = locate bk
      then (book_stats bk)\<lparr>trades := trades (book_stats bk) + 1\<rparr> else book_stats bk)"
  by (auto simp: book_add_def book_executed_def book_cancel_def book_delete_def book_trade_def
      bind_run_Inr_iff Let_def split: if_splits dest: reduce_stats)

text \<open>A replacement is tallied when the original order rests.\<close>

lemma replace_stats:
  assumes "book_replace b m bk = Inr bk'"
  shows "book_stats bk' = book_stats bk \<or>
    stock_locate (ore_header m) = locate bk \<and>
    book_stats bk' = (book_stats bk)\<lparr>replaces := replaces (book_stats bk) + 1\<rparr>"
  using assms
  by (auto simp: book_replace_def bind_run_Inr_iff Let_def split: if_splits option.splits dest: reduce_stats)

text \<open>Every message the book acts on is tallied once, by its type.\<close>

lemma deliver_stats:
  assumes "wf_message m" and "deliver (book_handler b) m bk = Inr bk'"
  defines "own types \<equiv> (if own_of_type (locate bk) types m then 1 else 0)"
  shows "adds (book_stats bk') = adds (book_stats bk) + own ''AF'' \<and>
    executions (book_stats bk') = executions (book_stats bk) + own ''EC'' \<and>
    cancels (book_stats bk') = cancels (book_stats bk) + own ''X'' \<and>
    deletes (book_stats bk') = deletes (book_stats bk) + own ''D'' \<and>
    trades (book_stats bk') = trades (book_stats bk) + own ''P'' \<and>
    replaces (book_stats bk') \<in> {replaces (book_stats bk), replaces (book_stats bk) + own ''U''}"
proof (cases m)
  case (OrderReplace r)
  then have "book_replace b r bk = Inr bk'" using assms(2) by (simp add: book_handler_def)
  from replace_stats [OF this] show ?thesis
    using OrderReplace assms(1) by (auto simp: own_def own_of_type_def)
next
  case (Other ty r)
  then show ?thesis
    using assms(1,2) other_type [of ty r]
    by (simp add: own_def own_of_type_def book_handler_def decoded_types_def)
qed (use assms(1,2) in \<open>simp_all add: own_def own_of_type_def book_handler_def book_add_with_mpid_def
      book_executed_with_price_def handler_stats\<close>)

interpretation book_tallies: tallying_handler "book_handler b" "\<lambda>bk. locate bk = loc"
  "\<lambda>bk. adds (book_stats bk)" "own_of_type loc ''AF''" for b loc
  using deliver_stats deliver_locate by unfold_locales auto

interpretation book_executions: tallying_handler "book_handler b" "\<lambda>bk. locate bk = loc"
  "\<lambda>bk. executions (book_stats bk)" "own_of_type loc ''EC''" for b loc
  using deliver_stats deliver_locate by unfold_locales auto

interpretation book_cancels: tallying_handler "book_handler b" "\<lambda>bk. locate bk = loc"
  "\<lambda>bk. cancels (book_stats bk)" "own_of_type loc ''X''" for b loc
  using deliver_stats deliver_locate by unfold_locales auto

interpretation book_deletes: tallying_handler "book_handler b" "\<lambda>bk. locate bk = loc"
  "\<lambda>bk. deletes (book_stats bk)" "own_of_type loc ''D''" for b loc
  using deliver_stats deliver_locate by unfold_locales auto

interpretation book_trades: tallying_handler "book_handler b" "\<lambda>bk. locate bk = loc"
  "\<lambda>bk. trades (book_stats bk)" "own_of_type loc ''P''" for b loc
  using deliver_stats deliver_locate by unfold_locales auto

text \<open>Replacements of orders that do not rest are not tallied, so this tally is a bound.\<close>

lemma fold_replaces:
  assumes "list_all wf_message ms" and "fold_run (deliver (book_handler b)) ms bk = Inr bk'"
  shows "\<exists>k \<le> length (filter (own_of_type (locate bk) ''U'') ms).
    replaces (book_stats bk') = replaces (book_stats bk) + of_nat k"
  using assms
proof (induction ms arbitrary: bk)
  case (Cons m ms)
  then obtain t where t: "deliver (book_handler b) m bk = Inr t"
    and rest: "fold_run (deliver (book_handler b)) ms t = Inr bk'"
    by (auto simp: bind_run_Inr_iff)
  have wf: "wf_message m" "list_all wf_message ms" using Cons.prems(1) by simp_all
  obtain k where k: "k \<le> length (filter (own_of_type (locate bk) ''U'') ms)"
    "replaces (book_stats bk') = replaces (book_stats t) + of_nat k"
    using Cons.IH [OF wf(2) rest] deliver_locate [OF t] by auto
  have "replaces (book_stats t) \<in> {replaces (book_stats bk),
      replaces (book_stats bk) + (if own_of_type (locate bk) ''U'' m then 1 else 0)}"
    using deliver_stats [OF wf(1) t] by blast
  then show ?case
    using k by (intro exI [of _ "if replaces (book_stats t) = replaces (book_stats bk) then k else Suc k"])
      (auto split: if_splits)
qed simp

section \<open>The locates partition the session\<close>

lemma sum_own_of_type:
  "(\<Sum>loc\<in>UNIV. length (filter (own_of_type loc types) ms)) =
     length (filter (\<lambda>m. msg_type (message_header m) \<in> set types) ms)"
proof (induction ms)
  case (Cons m ms)
  have "length (filter (own_of_type loc types) (m # ms)) =
      (if loc = stock_locate (message_header m) then
         if msg_type (message_header m) \<in> set types then 1 else 0 else 0) +
      length (filter (own_of_type loc types) ms)" for loc
    by (auto simp: own_of_type_def)
  then show ?case using Cons by (simp add: sum.distrib)
qed simp

lemma sum_tally:
  "(\<Sum>loc\<in>UNIV. of_nat (length (filter (own_of_type loc types) ms))) =
     (of_nat (length (filter (\<lambda>m. msg_type (message_header m) \<in> set types) ms)) :: u64)"
  by (simp flip: sum_own_of_type add: of_nat_sum)

lemma length_filter_two:
  "x \<noteq> y \<Longrightarrow> length (filter (\<lambda>m. f m \<in> set [x, y]) ms) =
     length (filter (\<lambda>m. f m = x) ms) + length (filter (\<lambda>m. f m = y) ms)"
  by (induction ms) auto

lemma unat_of_nat_le: "unat (of_nat k :: 'a::len word) \<le> k"
  by (simp add: unsigned_of_nat)

section \<open>One file, all books\<close>

lemma passes_asserts_Release [simp]: "passes_asserts Release file"
  by (simp add: passes_asserts_def)

lemma books_of_file:
  "\<exists>bk. parse_all Release file (book_handler Release) (book_for loc) = Inr (session_outcome file, bk)"
  using book_release.session_total [of Release "file" "book_for loc"] anchored_initial
  by (auto simp: book_for_def)

lemma census_type_count:
  assumes "parse_all b file (census_handler b) initial_census = Inr (out, c)"
  shows "census_count ty c =
    of_nat (length (filter (\<lambda>m. msg_type (message_header m) = ty) (session_messages file)))"
proof -
  have "unat (byte_of_char ty) < 256"
    using unsigned_less [of "byte_of_char ty", where ?'a = nat] by simp
  then show ?thesis
    using census_type.session_tally [OF assms, of ty]
    by (simp add: initial_census_def census_count_def)
qed

text \<open>A tally that every book keeps of the types \<open>types\<close> adds up to the messages of those types.\<close>

lemma sum_of_books:
  assumes "\<And>loc. tallying_handler (book_handler Release) (\<lambda>bk. locate bk = loc) tally (own_of_type loc types)"
    and "\<And>loc. parse_all Release file (book_handler Release) (book_for loc) =
      Inr (session_outcome file, books loc)"
    and "\<And>loc. tally (book_for loc) = 0"
  shows "(\<Sum>loc\<in>UNIV. tally (books loc)) =
    of_nat (length (filter (\<lambda>m. msg_type (message_header m) \<in> set types) (session_messages file)))"
proof -
  have "locate (book_for loc) = loc" for loc by (simp add: book_for_def)
  from tallying_handler.session_tally [OF assms(1,2) this] show ?thesis
    using sum_tally [of types "session_messages file"] by (simp add: assms(3))
qed

lemma replaces_of_book:
  assumes "parse_all Release file (book_handler Release) (book_for loc) = Inr (out, bk)"
  shows "unat (replaces (book_stats bk)) \<le>
    length (filter (own_of_type loc ''U'') (session_messages file))"
proof -
  have "list_all wf_message (session_messages file)"
    using wf_session_messages by (simp add: list_all_iff)
  from fold_replaces [OF this parse_all_Inr(3) [OF assms]]
  obtain k where "k \<le> length (filter (own_of_type loc ''U'') (session_messages file))"
    "replaces (book_stats bk) = of_nat k"
    by (auto simp: book_for_def initial_book_def initial_stats_def)
  then show ?thesis using unat_of_nat_le [of k, where ?'a = 64] by simp
qed

lemma tallies_of_books:
  assumes "\<And>loc. parse_all Release file (book_handler Release) (book_for loc) =
    Inr (session_outcome file, books loc)"
  defines "number ty \<equiv>
    length (filter (\<lambda>m. msg_type (message_header m) = ty) (session_messages file))"
  shows "(\<Sum>loc\<in>UNIV. adds (book_stats (books loc))) = of_nat (number CHR ''A'') + of_nat (number CHR ''F'')"
    and "(\<Sum>loc\<in>UNIV. executions (book_stats (books loc))) = of_nat (number CHR ''E'') + of_nat (number CHR ''C'')"
    and "(\<Sum>loc\<in>UNIV. cancels (book_stats (books loc))) = of_nat (number CHR ''X'')"
    and "(\<Sum>loc\<in>UNIV. deletes (book_stats (books loc))) = of_nat (number CHR ''D'')"
    and "(\<Sum>loc\<in>UNIV. trades (book_stats (books loc))) = of_nat (number CHR ''P'')"
    and "(\<Sum>loc\<in>UNIV. unat (replaces (book_stats (books loc)))) \<le> number CHR ''U''"
proof -
  have init: "book_stats (book_for loc) = initial_stats" for loc
    by (simp add: book_for_def initial_book_def)
  note tallies = book_tallies.tallying_handler_axioms book_executions.tallying_handler_axioms
    book_cancels.tallying_handler_axioms book_deletes.tallying_handler_axioms
    book_trades.tallying_handler_axioms
  note sums = tallies [THEN sum_of_books, OF assms(1)]
  show "(\<Sum>loc\<in>UNIV. adds (book_stats (books loc))) = of_nat (number CHR ''A'') + of_nat (number CHR ''F'')"
    and "(\<Sum>loc\<in>UNIV. executions (book_stats (books loc))) = of_nat (number CHR ''E'') + of_nat (number CHR ''C'')"
    and "(\<Sum>loc\<in>UNIV. cancels (book_stats (books loc))) = of_nat (number CHR ''X'')"
    and "(\<Sum>loc\<in>UNIV. deletes (book_stats (books loc))) = of_nat (number CHR ''D'')"
    and "(\<Sum>loc\<in>UNIV. trades (book_stats (books loc))) = of_nat (number CHR ''P'')"
    by (simp_all add: sums init initial_stats_def number_def length_filter_two [simplified])
  have "(\<Sum>loc\<in>UNIV. unat (replaces (book_stats (books loc)))) \<le>
      (\<Sum>loc\<in>UNIV. length (filter (own_of_type loc ''U'') (session_messages file)))"
    by (rule sum_mono) (rule replaces_of_book [OF assms(1)])
  then show "(\<Sum>loc\<in>UNIV. unat (replaces (book_stats (books loc)))) \<le> number CHR ''U''"
    by (simp add: sum_own_of_type number_def)
qed

end
