(* ===== verification/Replay_Report.thy ===== *)
theory Replay_Report
  imports Book_Replay Text_Output
begin

text \<open>
  What \<open>main\<close> of \<open>tools/book_replay.cpp\<close> writes. The values printed are those of the record
  \<open>replay_report\<close>; here is the text they become, and the program with its exit code and both
  output streams. The text loses nothing: two reports with the same text are the same.
\<close>

section \<open>The text\<close>

definition print_field :: "string \<Rightarrow> string \<Rightarrow> string" where
  "print_field label value = left_aligned 16 label @ value @ newline"

definition level_text :: "book_level option \<Rightarrow> string" where
  "level_text best =
     (case best of
        Some level \<Rightarrow>
          decimal (unat (bl_price level)) @ '' ('' @ decimal (unat (bl_shares level)) @ '' shares)''
      | None \<Rightarrow> ''none'')"

definition stop_text :: "(frame_error \<times> nat) option \<Rightarrow> string" where
  "stop_text stopped =
     (case stopped of
        None \<Rightarrow> []
      | Some (error, n) \<Rightarrow>
          newline @ ''framing stopped: '' @ describe error @ '' at offset '' @
          decimal n @ newline)"

definition replay_text :: "replay_report \<Rightarrow> string" where
  "replay_text r =
     print_field ''symbol'' (rr_symbol r) @
     print_field ''locate'' (decimal (unat (rr_locate r))) @
     print_field ''adds'' (decimal (unat (adds (rr_stats r)))) @
     print_field ''executions'' (decimal (unat (executions (rr_stats r)))) @
     print_field ''cancels'' (decimal (unat (cancels (rr_stats r)))) @
     print_field ''deletes'' (decimal (unat (deletes (rr_stats r)))) @
     print_field ''replaces'' (decimal (unat (replaces (rr_stats r)))) @
     print_field ''trades'' (decimal (unat (trades (rr_stats r)))) @
     print_field ''resting orders'' (decimal (rr_resting_orders r)) @
     print_field ''bid levels'' (decimal (rr_bid_levels r)) @
     print_field ''ask levels'' (decimal (rr_ask_levels r)) @
     print_field ''best bid'' (level_text (rr_best_bid r)) @
     print_field ''best ask'' (level_text (rr_best_ask r)) @
     stop_text (rr_stopped r)"

section \<open>The program\<close>

text \<open>
  The body of the \<open>try\<close> block on the bytes of the file, and the whole of \<open>main\<close>: the exit
  code, the standard output and the standard error.
\<close>

definition book_replay_session ::
  "build \<Rightarrow> string \<Rightarrow> byte list \<Rightarrow> (int \<times> string \<times> string) run" where
  "book_replay_session b symbol file =
     bind_run (parse_all b file (replay_handler b) (initial_replay symbol))
       (\<lambda>(outcome, s).
         Inr (if \<not> rp_resolved s
              then (1, [], ''book_replay: '' @ symbol @
                '' was never announced in a Stock Directory message'' @ newline)
              else (if complete outcome then 0 else 1,
                    replay_text (report_of symbol (rp_book s) outcome), [])))"

definition book_replay_failed :: "string \<Rightarrow> int \<times> string \<times> string" where
  "book_replay_failed what = (2, [], ''book_replay: '' @ what @ newline)"

definition book_replay_usage :: "int \<times> string \<times> string" where
  "book_replay_usage = (2, [], ''usage: book_replay <session.NASDAQ_ITCH50> <symbol>'' @ newline)"

definition book_replay_program ::
  "build \<Rightarrow> (string \<Rightarrow> string + byte list) \<Rightarrow> string list \<Rightarrow> (int \<times> string \<times> string) run" where
  "book_replay_program b open_file argv =
     (case argv of
        [program, path, symbol] \<Rightarrow>
          (case open_file path of
             Inl what \<Rightarrow> Inr (book_replay_failed what)
           | Inr file \<Rightarrow> book_replay_session b symbol file)
      | _ \<Rightarrow> Inr book_replay_usage)"

lemmas book_replay_program_defs = book_replay_program_def book_replay_session_def
  book_replay_failed_def book_replay_usage_def

text \<open>It is \<open>book_replay_main\<close> with its report written out.\<close>

lemma book_replay_program_main:
  "case book_replay_main b open_file argv of
     Inl e \<Rightarrow> book_replay_program b open_file argv = Inl e
   | Inr (code, Some r) \<Rightarrow> book_replay_program b open_file argv = Inr (code, replay_text r, [])
   | Inr (code, None) \<Rightarrow> \<exists>err. book_replay_program b open_file argv = Inr (code, [], err) \<and> err \<noteq> []"
proof -
  have core: "case bind_run run (\<lambda>(outcome, s). Inr (if \<not> rp_resolved s then (1, None)
          else (if complete outcome then 0 else 1, Some (report_of symbol (rp_book s) outcome)))) of
      Inl e \<Rightarrow> prog = Inl e
    | Inr (code, Some r) \<Rightarrow> prog = Inr (code, replay_text r, [])
    | Inr (code, None) \<Rightarrow> \<exists>err. prog = Inr (code, [], err) \<and> err \<noteq> []"
    if "prog = bind_run run (\<lambda>(outcome, s). Inr (if \<not> rp_resolved s
          then (1, [], ''book_replay: '' @ symbol @
            '' was never announced in a Stock Directory message'' @ newline)
          else (if complete outcome then 0 else 1,
                replay_text (report_of symbol (rp_book s) outcome), [])))"
    for run :: "(frame_outcome \<times> replay_state) run" and prog symbol
    using that by (cases run) (auto split: prod.split)
  show ?thesis
  proof (cases "\<exists>program path symbol. argv = [program, path, symbol]")
    case True
    then obtain program path symbol where argv: "argv = [program, path, symbol]" by blast
    show ?thesis
    proof (cases "open_file path")
      case (Inl what)
      then show ?thesis by (simp add: argv book_replay_main_def book_replay_program_defs)
    next
      case (Inr bytes)
      show ?thesis
        using core [of "book_replay_program b open_file argv"
            "parse_all b bytes (replay_handler b) (initial_replay symbol)" symbol]
        by (simp add: argv Inr book_replay_main_def book_replay_program_defs)
    qed
  next
    case False
    then have "book_replay_main b open_file argv = Inr (2, None)"
      "\<exists>err. book_replay_program b open_file argv = Inr (2, [], err) \<and> err \<noteq> []"
      by (auto simp: book_replay_main_def book_replay_program_defs split: list.split)
    then show ?thesis by simp
  qed
qed

lemma book_replay_program_report:
  "book_replay_main b open_file argv = Inr (code, Some r) \<Longrightarrow>
     book_replay_program b open_file argv = Inr (code, replay_text r, [])"
  using book_replay_program_main [of b open_file argv] by simp

lemma book_replay_program_unresolved:
  assumes "open_file path = Inr file" and "passes_asserts b file"
    and "\<forall>m \<in> set (session_messages file). waiting symbol m"
  shows "book_replay_program b open_file [program, path, symbol] =
    Inr (1, [], ''book_replay: '' @ symbol @
      '' was never announced in a Stock Directory message'' @ newline)"
proof -
  have "\<forall>m \<in> set (session_messages file). wf_message m \<and> waiting symbol m"
    using assms(3) wf_session_messages by blast
  from fold_replay_waits [OF this, of b]
  have "parse_all b file (replay_handler b) (initial_replay symbol) =
      Inr (session_outcome file, initial_replay symbol)"
    by (simp add: parse_all_deliver [OF assms(2)])
  moreover have "\<not> rp_resolved (initial_replay symbol)" by (simp add: initial_replay_def)
  ultimately show ?thesis by (simp add: book_replay_program_defs assms(1))
qed

lemma book_replay_program_safe:
  "safe_result b (\<lambda>_. True) (book_replay_program b open_file argv)"
  using book_replay_program_main [of b open_file argv] book_replay_main_safe [of b open_file argv]
  by (auto simp: safe_result_def split: sum.splits option.splits)

section \<open>The text determines the report\<close>

definition field_lines :: "replay_report \<Rightarrow> string list" where
  "field_lines r =
     [left_aligned 16 ''symbol'' @ rr_symbol r,
      left_aligned 16 ''locate'' @ decimal (unat (rr_locate r)),
      left_aligned 16 ''adds'' @ decimal (unat (adds (rr_stats r))),
      left_aligned 16 ''executions'' @ decimal (unat (executions (rr_stats r))),
      left_aligned 16 ''cancels'' @ decimal (unat (cancels (rr_stats r))),
      left_aligned 16 ''deletes'' @ decimal (unat (deletes (rr_stats r))),
      left_aligned 16 ''replaces'' @ decimal (unat (replaces (rr_stats r))),
      left_aligned 16 ''trades'' @ decimal (unat (trades (rr_stats r))),
      left_aligned 16 ''resting orders'' @ decimal (rr_resting_orders r),
      left_aligned 16 ''bid levels'' @ decimal (rr_bid_levels r),
      left_aligned 16 ''ask levels'' @ decimal (rr_ask_levels r),
      left_aligned 16 ''best bid'' @ level_text (rr_best_bid r),
      left_aligned 16 ''best ask'' @ level_text (rr_best_ask r)]"

definition stop_lines :: "(frame_error \<times> nat) option \<Rightarrow> string list" where
  "stop_lines stopped =
     (case stopped of
        None \<Rightarrow> []
      | Some (error, n) \<Rightarrow>
          [[], ''framing stopped: '' @ describe error @ '' at offset '' @ decimal n])"

lemma replay_text_lines: "replay_text r = lines (field_lines r @ stop_lines (rr_stopped r))"
  by (simp add: replay_text_def field_lines_def stop_lines_def stop_text_def print_field_def
      split: option.split prod.split)

lemma single_line_describe [simp]: "single_line (describe e)"
  by (cases e) (simp_all add: single_line_def)

lemma single_line_level_text [simp]: "single_line (level_text best)"
  by (cases best) (simp_all add: level_text_def)

lemma single_line_report:
  "single_line (rr_symbol r) \<Longrightarrow> list_all single_line (field_lines r @ stop_lines (rr_stopped r))"
  by (simp add: field_lines_def stop_lines_def split: option.split prod.split)

lemma level_text_inj [simp]: "level_text x = level_text y \<longleftrightarrow> x = y"
proof -
  have blank: "CHR '' '' \<notin> set (decimal n)" "CHR ''n'' \<notin> set (decimal n)" for n
    by (rule not_in_decimal; simp)+
  have "decimal n @ t \<noteq> ''none''" for n t
    using blank(2) [of n] by (cases "decimal n") auto
  then show ?thesis
    using split_at_inj [OF blank(1) blank(1)]
    by (cases x; cases y) (auto simp: level_text_def word_unat_eq_iff intro: book_level.equality)
qed

lemma stop_line_inj:
  "describe e @ '' at offset '' @ decimal m = describe f @ '' at offset '' @ decimal n \<longleftrightarrow>
     e = f \<and> m = n"
  by (cases e; cases f) simp_all

lemma stop_lines_inj [simp]: "stop_lines x = stop_lines y \<longleftrightarrow> x = y"
  using stop_line_inj by (auto simp: stop_lines_def split: option.split)

lemma replay_text_determines:
  assumes "single_line (rr_symbol r)" and "single_line (rr_symbol r')"
    and "replay_text r = replay_text r'"
  shows "r = r'"
proof -
  have "field_lines r @ stop_lines (rr_stopped r) = field_lines r' @ stop_lines (rr_stopped r')"
    using lines_inj [OF single_line_report [OF assms(1)] single_line_report [OF assms(2)]] assms(3)
    by (simp only: replay_text_lines)
  then have "field_lines r = field_lines r'" "rr_stopped r = rr_stopped r'"
    by (simp_all add: field_lines_def)
  then show ?thesis
    by (intro replay_report.equality stats.equality) (simp_all add: field_lines_def word_unat_eq_iff)
qed

end
