(* ===== verification/Double_Output.thy ===== *)
theory Double_Output
  imports Text_Output Complex_Main "HOL-Library.Log_Nat"
begin

text \<open>
  The \<open>double\<close> arithmetic of the census report and how \<open>iostream\<close> prints its results. A
  \<open>double\<close> is the rational number it stands for. Every operation rounds its exact result to
  the nearest number with 53 significant bits, ties to even. The exponent range is left out:
  the operands of the program are 0 or between \<open>10 ^ -9\<close> and \<open>10 ^ 29\<close>, so nothing overflows
  and nothing is subnormal.
\<close>

section \<open>Rounding\<close>

definition round_half_even :: "rat \<Rightarrow> int" where
  "round_half_even q =
     (let below = \<lfloor>q\<rfloor>; part = q - of_int below
      in if part < 1 / 2 then below
         else if 1 / 2 < part then below + 1
         else if even below then below else below + 1)"

text \<open>The exponent of the leading digit of a positive number to a base.\<close>

definition magnitude :: "nat \<Rightarrow> rat \<Rightarrow> int" where
  "magnitude b q =
     (case quotient_of q of (n, d) \<Rightarrow>
        let e = int (floorlog b (nat n)) - int (floorlog b (nat d))
        in if of_nat b powi e \<le> q then e else e - 1)"

definition to_double :: "rat \<Rightarrow> rat" where
  "to_double q =
     (if q = 0 then 0
      else let ulp = 2 powi (magnitude 2 q - 52)
           in of_int (round_half_even (q / ulp)) * ulp)"

section \<open>Printing\<close>

text \<open>\<open>fixed\<close> with a precision: the digits of the number, rounded to that many decimals.\<close>

definition fixed_text :: "nat \<Rightarrow> rat \<Rightarrow> string" where
  "fixed_text precision q =
     (let n = nat (round_half_even (q * 10 ^ precision))
      in decimal (n div 10 ^ precision) @
         (if precision = 0 then [] else ''.'' @ zero_padded precision (n mod 10 ^ precision)))"

definition strip_zeros :: "string \<Rightarrow> string" where
  "strip_zeros s =
     (if CHR ''.'' \<in> set s then
        let t = rev (dropWhile (\<lambda>c. c = CHR ''0'') (rev s))
        in if last t = CHR ''.'' then butlast t else t
      else s)"

text \<open>
  The default notation of a stream, \<open>%g\<close> of \<open>printf\<close>, with a positive precision: fixed or
  with an exponent, whichever the exponent of the rounded number selects, and without
  trailing zeros.
\<close>

definition general_text :: "nat \<Rightarrow> rat \<Rightarrow> string" where
  "general_text precision q =
     (if q = 0 then ''0''
      else
        let x0 = magnitude 10 q;
            m0 = round_half_even (q / 10 powi (x0 - int (precision - 1)));
            (x, m) = (if m0 = 10 ^ precision then (x0 + 1, 10 ^ (precision - 1)) else (x0, m0))
        in if - 4 \<le> x \<and> x < int precision
           then strip_zeros (fixed_text (nat (int (precision - 1) - x)) q)
           else strip_zeros ([hd (decimal (nat m))] @ ''.'' @ tl (decimal (nat m))) @ ''e'' @
                (if x < 0 then ''-'' else ''+'') @ zero_padded 2 (nat \<bar>x\<bar>))"

section \<open>How far rounding goes\<close>

lemma round_half_even_of_int [simp]: "round_half_even (of_int k) = k"
  by (simp add: round_half_even_def)

lemma round_half_even_error: "\<bar>of_int (round_half_even q) - q\<bar> \<le> 1 / 2"
proof -
  have "of_int \<lfloor>q\<rfloor> \<le> q" "q < of_int \<lfloor>q\<rfloor> + 1" by linarith+
  then show ?thesis by (auto simp: round_half_even_def Let_def abs_if; linarith)
qed

lemma magnitude_bounds:
  assumes "0 < q" and "1 < b"
  shows "of_nat b powi magnitude b q \<le> q" and "q < of_nat b powi (magnitude b q + 1)"
proof -
  obtain n d where nd: "quotient_of q = (n, d)" by fastforce
  have d: "0 < d" and q: "q = of_int n / of_int d"
    using nd quotient_of_denom_pos quotient_of_div by blast+
  have n: "0 < n" using assms(1) d unfolding q by (simp add: zero_less_divide_iff)
  define B where "B = (of_nat b :: rat)"
  have B: "1 < B" using assms(2) by (simp add: B_def)
  define x y where "x = floorlog b (nat n)" and "y = floorlog b (nat d)"
  have pos: "0 < x" "0 < y"
    using n d assms(2) by (simp_all add: x_def y_def floorlog_def)
  have nat_of: "(of_nat (nat k) :: rat) = of_int k" if "0 < k" for k using that by simp
  have bounds: "B ^ (floorlog b (nat k) - 1) \<le> of_int k \<and> of_int k < B ^ floorlog b (nat k)"
    if "0 < k" for k
    using floorlog_bounds [of "nat k" b] assms(2) that
    unfolding nat_of [OF that, symmetric] B_def
    by (simp del: of_nat_nat flip: of_nat_power)
  note nb = bounds [OF n, folded x_def] and db = bounds [OF d, folded y_def]
  have dpos: "(0::rat) < of_int d" using d by simp
  have split: "B powi (int u - int v) * B ^ v = B ^ u" for u v
    using B by (simp add: power_int_diff)
  define e where "e = int x - int y"
  have "q * of_int d < B ^ x" using nb dpos by (simp add: q)
  moreover have "B ^ x = B powi (e + 1) * B ^ (y - 1)"
    using split [of x "y - 1"] pos(2) by (simp add: e_def of_nat_diff algebra_simps)
  moreover have "B powi (e + 1) * B ^ (y - 1) \<le> B powi (e + 1) * of_int d"
    using db B by (intro mult_left_mono) (simp_all add: zero_le_power_int)
  ultimately have "q * of_int d < B powi (e + 1) * of_int d" by linarith
  then have upper: "q < B powi (e + 1)" using dpos by simp
  have "B powi (e - 1) * of_int d \<le> B powi (e - 1) * B ^ y"
    using db B by (intro mult_left_mono) (simp_all add: zero_le_power_int)
  also have "\<dots> = B ^ (x - 1)"
    using split [of "x - 1" y] pos(1) by (simp add: e_def of_nat_diff algebra_simps)
  also have "\<dots> \<le> q * of_int d" using nb dpos by (simp add: q)
  finally have lower: "B powi (e - 1) \<le> q" using dpos by simp
  have "magnitude b q = (if B powi e \<le> q then e else e - 1)"
    by (simp add: magnitude_def nd B_def e_def x_def y_def)
  with upper lower show "of_nat b powi magnitude b q \<le> q" "q < of_nat b powi (magnitude b q + 1)"
    by (simp_all add: B_def [symmetric] split: if_splits)
qed

lemma to_double_error:
  assumes "0 < q"
  shows "\<bar>to_double q - q\<bar> \<le> q / 2 ^ 53"
proof -
  define ulp :: rat where "ulp = 2 powi (magnitude 2 q - 52)"
  have ulp: "0 < ulp" by (simp add: ulp_def)
  have "\<bar>to_double q - q\<bar> = \<bar>of_int (round_half_even (q / ulp)) - q / ulp\<bar> * ulp"
  proof -
    have "to_double q - q = (of_int (round_half_even (q / ulp)) - q / ulp) * ulp"
      using assms ulp by (simp add: to_double_def ulp_def [symmetric] Let_def left_diff_distrib)
    then show ?thesis using ulp by (simp add: abs_mult)
  qed
  also have "\<dots> \<le> 1 / 2 * ulp"
    using round_half_even_error ulp by (intro mult_right_mono) simp_all
  also have "\<dots> = 2 powi magnitude 2 q / 2 ^ 53"
    by (simp add: ulp_def power_int_diff)
  also have "\<dots> \<le> q / 2 ^ 53"
    using magnitude_bounds(1) [OF assms, of 2] by (intro divide_right_mono) simp_all
  finally show ?thesis .
qed

lemma to_double_zero [simp]: "to_double 0 = 0"
  by (simp add: to_double_def)


lemma to_double_bounds:
  assumes "0 \<le> q"
  shows "q * (1 - 1 / 2 ^ 53) \<le> to_double q" and "to_double q \<le> q * (1 + 1 / 2 ^ 53)"
proof -
  have "\<bar>to_double q - q\<bar> \<le> q / 2 ^ 53"
    using assms to_double_error [of q] by (cases "q = 0") simp_all
  then show "q * (1 - 1 / 2 ^ 53) \<le> to_double q" "to_double q \<le> q * (1 + 1 / 2 ^ 53)"
    unfolding abs_le_iff by (simp_all add: algebra_simps)
qed

lemma to_double_nonneg: "0 \<le> q \<Longrightarrow> 0 \<le> to_double q"
  using to_double_bounds(1) [of q] zero_le_mult_iff [of q "1 - 1 / 2 ^ 53"] by force

lemma to_double_pos: "0 < q \<Longrightarrow> 0 < to_double q"
  using to_double_bounds(1) [of q] zero_less_mult_iff [of q "1 - 1 / 2 ^ 53"] by force

text \<open>A percentage computed with three rounded operations on two rounded operands.\<close>

definition percentage :: "nat \<Rightarrow> nat \<Rightarrow> rat" where
  "percentage part whole =
     to_double (to_double (100 * to_double (of_nat part)) / to_double (of_nat whole))"

lemma rounded_product:
  assumes "0 \<le> x" and "0 \<le> u" and "u \<le> 1"
    and "x * (1 - u) \<le> x'" and "x' \<le> x * (1 + u)"
    and "c * x' * (1 - u) \<le> p" and "p \<le> c * x' * (1 + u)" and "0 \<le> c"
  shows "c * x * (1 - u) ^ 2 \<le> (p :: rat)" and "p \<le> c * x * (1 + u) ^ 2"
proof -
  have "c * (x * (1 - u)) * (1 - u) \<le> c * x' * (1 - u)"
    using assms by (intro mult_right_mono mult_left_mono) simp_all
  with assms(6) show "c * x * (1 - u) ^ 2 \<le> p" by (simp add: power2_eq_square algebra_simps)
  have "c * x' * (1 + u) \<le> c * (x * (1 + u)) * (1 + u)"
    using assms by (intro mult_right_mono mult_left_mono) simp_all
  with assms(7) show "p \<le> c * x * (1 + u) ^ 2" by (simp add: power2_eq_square algebra_simps)
qed

lemma rounded_quotient:
  fixes p w s x y u :: rat
  assumes "0 \<le> p" and "0 < w" and "0 < y" and "0 \<le> x" and "0 \<le> u" and "u < 1"
    and "x * (1 - u) ^ 2 \<le> p" and "p \<le> x * (1 + u) ^ 2"
    and "y * (1 - u) \<le> w" and "w \<le> y * (1 + u)"
    and "p / w * (1 - u) \<le> s" and "s \<le> p / w * (1 + u)"
  shows "x / y * ((1 - u) ^ 3 / (1 + u)) \<le> s" and "s \<le> x / y * ((1 + u) ^ 3 / (1 - u))"
proof -
  have "x / y * ((1 - u) ^ 3 / (1 + u)) = (x * (1 - u) ^ 2) / (y * (1 + u)) * (1 - u)"
    by (simp add: power3_eq_cube power2_eq_square)
  also have "\<dots> \<le> p / w * (1 - u)"
    using assms by (intro mult_right_mono frac_le) simp_all
  finally show "x / y * ((1 - u) ^ 3 / (1 + u)) \<le> s" using assms(11) by simp
  have "p / w * (1 + u) \<le> (x * (1 + u) ^ 2) / (y * (1 - u)) * (1 + u)"
    using assms by (intro mult_right_mono frac_le mult_pos_pos) simp_all
  also have "\<dots> = x / y * ((1 + u) ^ 3 / (1 - u))" by (simp add: power3_eq_cube power2_eq_square)
  finally show "s \<le> x / y * ((1 + u) ^ 3 / (1 - u))" using assms(12) by simp
qed

lemma percentage_bounds:
  assumes "0 < whole" and "part \<le> whole"
  shows "\<bar>percentage part whole - 100 * of_nat part / of_nat whole\<bar> \<le> 1 / 10 ^ 6"
proof -
  define u :: rat where "u = 1 / 2 ^ 53"
  note bounds = to_double_bounds [folded u_def]
  let ?c = "to_double (of_nat part)" and ?w = "to_double (of_nat whole)"
  let ?p = "to_double (100 * ?c)"
  define x where "x = 100 * of_nat part / (of_nat whole :: rat)"
  have u: "0 \<le> u" "u < 1" "u \<le> 1" by (simp_all add: u_def)
  have x: "0 \<le> x" "x \<le> 100" using assms by (simp_all add: x_def divide_le_eq)
  have whole: "(0::rat) < of_nat whole" "0 < ?w" using assms(1) by (simp_all add: to_double_pos)
  have hundred: "0 \<le> 100 * ?c" by (simp add: to_double_nonneg)
  then have p: "0 \<le> ?p" by (rule to_double_nonneg)
  then have quotient: "0 \<le> ?p / ?w" using whole(2) by simp
  have part: "(0::rat) \<le> of_nat part" "(0::rat) \<le> 100 * of_nat part" by simp_all
  note product = rounded_product [OF part(1) u(1,3) bounds [OF part(1)] bounds [OF hundred]]
  have "x * ((1 - u) ^ 3 / (1 + u)) \<le> percentage part whole"
    "percentage part whole \<le> x * ((1 + u) ^ 3 / (1 - u))"
    unfolding x_def percentage_def
    using rounded_quotient [OF p whole(2,1) part(2) u(1,2) product
        bounds [OF less_imp_le [OF whole(1)]] bounds [OF quotient]] by simp_all
  moreover have "x * (1 - 1 / 10 ^ 8) \<le> x * ((1 - u) ^ 3 / (1 + u))"
    "x * ((1 + u) ^ 3 / (1 - u)) \<le> x * (1 + 1 / 10 ^ 8)"
    using x(1) by (intro mult_left_mono; simp add: u_def power3_eq_cube)+
  ultimately have "x * (1 - 1 / 10 ^ 8) \<le> percentage part whole"
    "percentage part whole \<le> x * (1 + 1 / 10 ^ 8)" by linarith+
  with x(2) have "\<bar>percentage part whole - x\<bar> \<le> 1 / 10 ^ 6"
    by (simp add: abs_if algebra_simps)
  then show ?thesis by (simp only: x_def)
qed

text \<open>The number of hundredths that \<open>fixed\<close> prints for a percentage.\<close>

definition hundredths :: "rat \<Rightarrow> nat" where
  "hundredths q = nat (round_half_even (q * 10 ^ 2))"

lemma hundredths_percentage:
  assumes "0 < whole" and "part \<le> whole"
  shows "\<bar>of_nat (hundredths (percentage part whole)) - 10000 * of_nat part / of_nat whole\<bar>
    \<le> (51 / 100 :: rat)"
    and "hundredths (percentage part whole) \<le> 10000"
proof -
  define h where "h = round_half_even (percentage part whole * 10 ^ 2)"
  define x where "x = 100 * of_nat part / (of_nat whole :: rat)"
  have x: "0 \<le> x" "x \<le> 100" using assms by (simp_all add: x_def divide_le_eq)
  have near: "\<bar>percentage part whole - x\<bar> \<le> 1 / 1000000"
    using percentage_bounds [OF assms] by (simp add: x_def)
  have "\<bar>of_int h - percentage part whole * 100\<bar> \<le> 1 / 2"
    using round_half_even_error [of "percentage part whole * 10 ^ 2"] by (simp add: h_def)
  with near have close: "\<bar>of_int h - 100 * x\<bar> \<le> (51 / 100 :: rat)" by linarith
  then have "(of_int h :: rat) < of_int 10001" "(of_int (- 1) :: rat) < of_int h" using x by linarith+
  then have h: "h \<le> 10000" "0 \<le> h" by (simp_all only: of_int_less_iff)
  have hund: "hundredths (percentage part whole) = nat h" by (simp add: hundredths_def h_def)
  show "hundredths (percentage part whole) \<le> 10000" using h by (simp add: hund)
  show "\<bar>of_nat (hundredths (percentage part whole)) - 10000 * of_nat part / of_nat whole\<bar> \<le> (51 / 100 :: rat)"
    using close h by (simp add: hund x_def)
qed

lemma fixed_text_hundredths:
  "fixed_text 2 q =
     decimal (hundredths q div 100) @ ''.'' @ zero_padded 2 (hundredths q mod 100)"
  by (simp add: fixed_text_def hundredths_def Let_def)

end
