(* ===== verification/Count_Report.thy ===== *)
theory Count_Report
  imports Itch_Count Double_Output "HOL-Library.Multiset"
begin

text \<open>
  What \<open>main\<close> of \<open>tools/itch_count.cpp\<close> writes: the table of message types, the verdicts,
  the framing error and the throughput line. Three things come from outside and are
  parameters: opening the file, \<open>std::sort\<close>, whose contract \<open>sorts\<close> leaves the order of equal
  counts open, and the time that passes between the two readings of the clock.
\<close>

section \<open>The table\<close>

type_synonym census_row = "char \<times> u64"

text \<open>\<open>lhs.second > rhs.second\<close>\<close>

definition row_before :: "census_row \<Rightarrow> census_row \<Rightarrow> bool" where
  "row_before lhs rhs \<longleftrightarrow> snd rhs < snd lhs"

definition sorts :: "(census_row list \<Rightarrow> census_row list) \<Rightarrow> bool" where
  "sorts sort_rows \<longleftrightarrow>
     (\<forall>rows. mset (sort_rows rows) = mset rows \<and>
        sorted_wrt (\<lambda>x y. \<not> row_before y x) (sort_rows rows))"

definition row_text :: "u64 \<Rightarrow> census_row \<Rightarrow> string" where
  "row_text whole row =
     (case row of (type, n) \<Rightarrow>
        let share = percentage (unat n) (unat whole)
        in ''  '' @ [type] @ ''   '' @ right_aligned 14 (decimal (unat n)) @ ''  '' @
           right_aligned 6 (fixed_text 2 share) @ ''%  '' @ describe_type type @ newline)"

section \<open>The report\<close>

definition summary_text :: "string \<Rightarrow> nat \<Rightarrow> frame_outcome \<Rightarrow> string" where
  "summary_text path file_size outcome =
     ''file            '' @ path @ newline @
     ''bytes           '' @ decimal file_size @ newline @
     ''bytes consumed  '' @ decimal (bytes_consumed outcome) @ newline @
     ''messages        '' @ decimal (messages outcome) @ newline @ newline"

definition table_text :: "u64 \<Rightarrow> census_row list \<Rightarrow> string" where
  "table_text whole rows =
     ''type  count            share   description'' @ newline @ concat (map (row_text whole) rows)"

definition session_text :: "census \<Rightarrow> string" where
  "session_text c =
     newline @ ''first timestamp '' @ format_time_of_day (first_timestamp_ns c) @
     newline @ ''last timestamp  '' @ format_time_of_day (last_timestamp_ns c) @
     newline @ ''system events   '' @ system_events c @ newline"

definition verdicts_text :: "verdicts \<Rightarrow> u64 \<Rightarrow> string" where
  "verdicts_text v backwards =
     newline @ ''invariants'' @ newline @
     ''  framed to last byte      '' @ (if framed_completely v then ''ok'' else ''FAILED'') @ newline @
     ''  counts agree with framer '' @ (if counts_agree v then ''ok'' else ''FAILED'') @ newline @
     ''  timestamps non-decreasing '' @
       (if timestamps_monotonic v then ''ok''
        else ''FAILED ('' @ decimal (unat backwards) @ '')'') @ newline @
     ''  full session O S Q M E C '' @ (if session_complete v then ''ok'' else ''not present'') @ newline"

definition stopped_text :: "frame_outcome \<Rightarrow> string" where
  "stopped_text outcome =
     (case frame_error outcome of
        None \<Rightarrow> []
      | Some error \<Rightarrow>
          newline @ ''framing stopped: '' @ describe error @ '' at offset '' @
          decimal (error_offset outcome) @
          (if error_type outcome \<noteq> CHR 0x00 then '' (type '' @ [CHR 0x27, error_type outcome, CHR 0x27] @ '')''
           else []) @ newline)"

text \<open>
  The throughput line. The stream prints in fixed notation once a row of the table has set
  \<open>std::fixed\<close>, and in the default notation when the table is empty. Converting a quotient
  that does not fit 64 bits is undefined. The dash is the three bytes of its UTF-8 encoding.
\<close>

definition elapsed_seconds :: "nat \<Rightarrow> rat" where
  "elapsed_seconds elapsed_ns = to_double (to_double (of_nat elapsed_ns) / 1000000000)"

definition throughput :: "nat \<Rightarrow> rat \<Rightarrow> nat run" where
  "throughput walked seconds =
     (let rate = nat \<lfloor>to_double (to_double (of_nat walked) / seconds)\<rfloor>
      in bind_run (require (rate < 2 ^ 64)) (\<lambda>_. Inr rate))"

definition throughput_text :: "bool \<Rightarrow> nat \<Rightarrow> nat \<Rightarrow> string run" where
  "throughput_text fixed walked elapsed_ns =
     (let seconds = elapsed_seconds elapsed_ns;
          walked_in = newline @ ''walked in '' @
            (if fixed then fixed_text 2 seconds else general_text 2 seconds) @ '' s''
      in if 0 < seconds then
           bind_run (throughput walked seconds) (\<lambda>rate.
             Inr (walked_in @ '' ('' @ decimal rate @ '' msg/s, rough throughput only '' @
                  [CHR 0xE2, CHR 0x80, CHR 0x94] @ '' not a benchmark)'' @ newline))
         else Inr (walked_in @ newline))"

definition census_text ::
  "(census_row list \<Rightarrow> census_row list) \<Rightarrow> string \<Rightarrow> nat \<Rightarrow> frame_outcome \<Rightarrow> census \<Rightarrow> string" where
  "census_text sort_rows path file_size outcome c =
     summary_text path file_size outcome @
     table_text (message_total c) (sort_rows (present c)) @
     session_text c @
     verdicts_text (verdicts_of file_size outcome c) (backwards_timestamps c) @
     stopped_text outcome"

text \<open>
  The body of the \<open>try\<close> block on the bytes of the file, and the whole of \<open>main\<close>: the exit
  code, the standard output and the standard error.
\<close>

definition itch_count_session ::
  "build \<Rightarrow> (census_row list \<Rightarrow> census_row list) \<Rightarrow> nat \<Rightarrow> string \<Rightarrow> byte list \<Rightarrow>
   (int \<times> string \<times> string) run" where
  "itch_count_session b sort_rows elapsed_ns path file =
     bind_run (parse_all b file (census_handler b) initial_census) (\<lambda>(outcome, c).
     bind_run (throughput_text (present c \<noteq> []) (messages outcome) elapsed_ns) (\<lambda>walked.
       Inr (if healthy (verdicts_of (length file) outcome c) then 0 else 1,
            census_text sort_rows path (length file) outcome c @ walked, [])))"

definition itch_count_failed :: "string \<Rightarrow> int \<times> string \<times> string" where
  "itch_count_failed what = (2, [], ''itch_count: '' @ what @ newline)"

definition itch_count_usage :: "int \<times> string \<times> string" where
  "itch_count_usage = (2, [], ''usage: itch_count <session.NASDAQ_ITCH50>'' @ newline)"

definition itch_count_program ::
  "build \<Rightarrow> (census_row list \<Rightarrow> census_row list) \<Rightarrow> (string \<Rightarrow> string + byte list) \<Rightarrow> nat \<Rightarrow>
   string list \<Rightarrow> (int \<times> string \<times> string) run" where
  "itch_count_program b sort_rows open_file elapsed_ns argv =
     (case argv of
        [program, path] \<Rightarrow>
          (case open_file path of
             Inl what \<Rightarrow> Inr (itch_count_failed what)
           | Inr file \<Rightarrow> itch_count_session b sort_rows elapsed_ns path file)
      | _ \<Rightarrow> Inr itch_count_usage)"

lemmas itch_count_program_defs = itch_count_program_def itch_count_session_def
  itch_count_failed_def itch_count_usage_def

section \<open>The throughput line never overflows in practice\<close>

lemma elapsed_seconds_bounds:
  assumes "0 < elapsed_ns"
  shows "of_nat elapsed_ns / 1000000000 * (999 / 1000) \<le> elapsed_seconds elapsed_ns"
proof -
  let ?n = "of_nat elapsed_ns :: rat"
  have "?n * (1 - 1 / 2 ^ 53) \<le> to_double ?n" by (rule to_double_bounds) simp
  then have "?n * (1 - 1 / 2 ^ 53) / 1000000000 * (1 - 1 / 2 ^ 53) \<le>
      to_double ?n / 1000000000 * (1 - 1 / 2 ^ 53)"
    by (intro mult_right_mono divide_right_mono) simp_all
  also have "\<dots> \<le> elapsed_seconds elapsed_ns"
    unfolding elapsed_seconds_def by (rule to_double_bounds) (simp add: to_double_nonneg)
  finally show ?thesis by (simp add: algebra_simps)
qed

lemma throughput_returns:
  assumes "walked \<le> 2 ^ 33" and "0 < elapsed_ns"
  shows "\<exists>rate. throughput walked (elapsed_seconds elapsed_ns) = Inr rate"
proof -
  let ?w = "of_nat walked :: rat" and ?s = "elapsed_seconds elapsed_ns"
  have "(1::rat) \<le> of_nat elapsed_ns" using assms(2) by simp
  then have s: "999 / 1000000000000 \<le> ?s"
    using elapsed_seconds_bounds [OF assms(2)] by simp
  have w: "0 \<le> to_double ?w" "to_double ?w \<le> ?w * (1 + 1 / 2 ^ 53)"
    using to_double_bounds(2) [of ?w] by (simp_all add: to_double_nonneg)
  have "?w \<le> 2 ^ 33" using assms(1) of_nat_le_iff [of walked "2 ^ 33"] by simp
  with w have "to_double ?w \<le> 8600000000" by simp
  then have "to_double ?w / ?s \<le> 8600000000 / (999 / 1000000000000)"
    using s w(1) by (intro frac_le) simp_all
  moreover have "to_double (to_double ?w / ?s) \<le> to_double ?w / ?s * (1 + 1 / 2 ^ 53)"
    using s w(1) by (intro to_double_bounds) simp_all
  ultimately have "to_double (to_double ?w / ?s) < 2 ^ 64" by simp
  then have "\<lfloor>to_double (to_double ?w / ?s)\<rfloor> < 18446744073709551616"
    by (simp add: floor_less_iff)
  then have "nat \<lfloor>to_double (to_double ?w / ?s)\<rfloor> < 18446744073709551616" by linarith
  then show ?thesis by (simp add: throughput_def require_def Let_def)
qed

lemma throughput_text_returns:
  assumes "walked \<le> 2 ^ 33"
  shows "\<exists>s. throughput_text fixed walked elapsed_ns = Inr s"
proof (cases "0 < elapsed_ns")
  case True
  then obtain rate where "throughput walked (elapsed_seconds elapsed_ns) = Inr rate"
    using throughput_returns [OF assms] by blast
  then show ?thesis
    by (cases "0 < elapsed_seconds elapsed_ns") (simp_all add: throughput_text_def Let_def)
qed (simp add: throughput_text_def elapsed_seconds_def Let_def)

section \<open>What the program prints for a session\<close>

lemma present_nonempty:
  assumes "length ms < 2 ^ 64"
  shows "present (census_of ms) \<noteq> [] \<longleftrightarrow> ms \<noteq> []"
proof
  assume "ms \<noteq> []"
  define ty where "ty = msg_type (message_header (hd ms))"
  define n where "n = length (filter (\<lambda>m. msg_type (message_header m) = ty) ms)"
  have "0 < n" using \<open>ms \<noteq> []\<close> by (cases ms) (simp_all add: n_def ty_def)
  moreover have "n < 2 ^ 64"
    unfolding n_def by (rule le_less_trans [OF length_filter_le assms])
  ultimately have "0 < census_count ty (census_of ms)"
    by (simp add: census_count_of n_def [symmetric] word_less_nat_alt unsigned_of_nat take_bit_nat_eq_self)
  then have "(ty, census_count ty (census_of ms)) \<in> set (present (census_of ms))"
    by (simp add: set_present)
  then show "present (census_of ms) \<noteq> []" by auto
qed (auto simp: present_def census_count_of)

lemma itch_count_program_prints:
  assumes "open_file path = Inr file" and "length file \<le> 2 ^ 36" and "passes_asserts b file"
  shows "\<exists>walked. throughput_text (session_messages file \<noteq> []) (length (session_messages file))
        elapsed_ns = Inr walked \<and>
    itch_count_program b sort_rows open_file elapsed_ns [program, path] =
      Inr (if healthy (verdicts_of (length file) (session_outcome file)
                  (census_of (session_messages file))) then 0 else 1,
        census_text sort_rows path (length file) (session_outcome file)
          (census_of (session_messages file)) @ walked, [])"
proof -
  have "14 * length (session_messages file) \<le> length file"
    using session_messages_bytes [of "file"] by (simp add: bytes_consumed_session_outcome)
  then have few: "length (session_messages file) \<le> 2 ^ 33" "length (session_messages file) < 2 ^ 64"
    using assms(2) by simp_all
  obtain walked where walked: "throughput_text (session_messages file \<noteq> [])
      (length (session_messages file)) elapsed_ns = Inr walked"
    using throughput_text_returns [OF few(1)] by blast
  moreover have "parse_all b file (census_handler b) initial_census =
      Inr (session_outcome file, census_of (session_messages file))"
    by (rule parse_census) (use assms(2,3) in simp_all)
  ultimately show ?thesis
    using assms(1) present_nonempty [OF few(2)] by (simp add: itch_count_program_defs)
qed

section \<open>The rows of the table\<close>

lemma distinct_present: "distinct (map fst (present c))"
proof -
  have "inj_on (\<lambda>i. char_of_byte (of_nat i)) {0..<256}"
  proof (rule inj_onI)
    fix i j :: nat
    assume ij: "i \<in> {0..<256}" "j \<in> {0..<256}" "char_of_byte (of_nat i) = char_of_byte (of_nat j)"
    then have "(of_nat i :: byte) = of_nat j" by (simp add: char_of_byte_inj)
    then have "unat (of_nat i :: byte) = unat (of_nat j :: byte)" by simp
    with ij show "i = j" by (simp add: unsigned_of_nat take_bit_nat_eq_self)
  qed
  then have "distinct (map (\<lambda>i. char_of_byte (of_nat i)) [0..<256])" by (simp add: distinct_map)
  then show ?thesis by (simp add: present_def o_def distinct_map)
qed

lemma sum_counts:
  assumes "finite A" and "f ` set xs \<subseteq> A"
  shows "(\<Sum>a\<in>A. length (filter (\<lambda>x. f x = a) xs)) = length xs"
  using assms(2)
proof (induction xs)
  case (Cons x xs)
  have "(\<Sum>a\<in>A. length (filter (\<lambda>y. f y = a) (x # xs))) =
      (\<Sum>a\<in>A. (if f x = a then 1 else 0) + length (filter (\<lambda>y. f y = a) xs))"
    by (intro sum.cong) simp_all
  also have "\<dots> = Suc (length xs)" using Cons assms(1) by (simp add: sum.distrib)
  finally show ?case by simp
qed simp

lemma sorted_rows:
  assumes "sorts sort_rows"
  shows "set (sort_rows rows) = set rows" and "mset (sort_rows rows) = mset rows"
    and "sorted_wrt (\<lambda>x y. snd y \<le> snd x) (sort_rows rows)"
  using assms mset_eq_setD [of "sort_rows rows" rows]
  by (auto simp: sorts_def row_before_def not_less)

text \<open>A stable sort is one the contract allows.\<close>

lemma sorts_sort_key: "sorts (sort_key (\<lambda>row. - uint (snd row)))"
proof -
  have "sorted_wrt (\<lambda>x y. \<not> row_before y x) rows"
    if "sorted (map (\<lambda>row. - uint (snd row)) rows)" for rows :: "census_row list"
    using that by (simp add: sorted_map row_before_def word_le_def sorted_wrt_map not_less)
  then show ?thesis by (simp add: sorts_def)
qed

text \<open>The counts of the rows add up to the number of messages.\<close>

lemma unat_census_count:
  assumes "length ms < 2 ^ 64"
  shows "unat (census_count ty (census_of ms)) =
    length (filter (\<lambda>m. msg_type (message_header m) = ty) ms)"
proof -
  have "length (filter (\<lambda>m. msg_type (message_header m) = ty) ms) < 2 ^ 64"
    by (rule le_less_trans [OF length_filter_le assms])
  then show ?thesis by (simp add: census_count_of unsigned_of_nat take_bit_nat_eq_self)
qed

lemma sum_present:
  assumes "length ms < 2 ^ 64"
  shows "sum_list (map (\<lambda>row. unat (snd row)) (present (census_of ms))) = length ms"
proof -
  let ?count = "\<lambda>ty. length (filter (\<lambda>m. msg_type (message_header m) = ty) ms)"
  let ?types = "map fst (present (census_of ms))"
  have "map (\<lambda>row. unat (snd row)) (present (census_of ms)) = map ?count ?types"
    by (auto simp: set_present unat_census_count [OF assms])
  then have "sum_list (map (\<lambda>row. unat (snd row)) (present (census_of ms))) =
      (\<Sum>ty\<in>set ?types. ?count ty)"
    using distinct_present by (simp only: sum_list_distinct_conv_sum_set)
  also have "\<dots> = length ms"
  proof (rule sum_counts)
    show "(\<lambda>m. msg_type (message_header m)) ` set ms \<subseteq> set ?types"
    proof
      fix ty
      assume "ty \<in> (\<lambda>m. msg_type (message_header m)) ` set ms"
      then have "0 < ?count ty" by (auto simp: filter_empty_conv)
      then have "0 < census_count ty (census_of ms)"
        using unat_census_count [OF assms, of ty] by (simp add: word_less_nat_alt)
      then have "(ty, census_count ty (census_of ms)) \<in> set (present (census_of ms))"
        by (simp add: set_present)
      then show "ty \<in> set ?types" by force
    qed
  qed simp
  finally show ?thesis .
qed

lemma sum_sorted_rows:
  assumes "sorts sort_rows"
  shows "sum_list (map f (sort_rows rows)) = (sum_list (map f rows) :: nat)"
    and "distinct (map fst (sort_rows rows)) \<longleftrightarrow> distinct (map fst rows)"
proof -
  show "sum_list (map f (sort_rows rows)) = sum_list (map f rows)"
    unfolding sum_mset_sum_list [symmetric] mset_map sorted_rows(2) [OF assms] ..
  show "distinct (map fst (sort_rows rows)) \<longleftrightarrow> distinct (map fst rows)"
    by (rule mset_eq_imp_distinct_iff) (simp add: sorted_rows(2) [OF assms])
qed

text \<open>The share column.\<close>

lemma row_text_share:
  assumes "length ms < 2 ^ 64" and "(ty, n) \<in> set (present (census_of ms))"
  shows "\<exists>h. row_text (message_total (census_of ms)) (ty, n) =
      ''  '' @ [ty] @ ''   '' @ right_aligned 14 (decimal (unat n)) @ ''  '' @
      right_aligned 6 (decimal (h div 100) @ ''.'' @ zero_padded 2 (h mod 100)) @ ''%  '' @
      describe_type ty @ newline \<and>
    \<bar>of_nat h - 10000 * of_nat (unat n) / of_nat (length ms)\<bar> \<le> (51 / 100 :: rat) \<and>
    h \<le> 10000"
proof -
  have n: "unat n = length (filter (\<lambda>m. msg_type (message_header m) = ty) ms)" "0 < unat n"
    using assms by (auto simp: set_present unat_census_count word_less_nat_alt)
  have whole: "unat (message_total (census_of ms)) = length ms"
    using assms(1) by (simp add: census_of_def unsigned_of_nat take_bit_nat_eq_self)
  have "unat n \<le> length ms" by (simp add: n(1))
  with n(2) have "0 < length ms" "unat n \<le> length ms" by linarith+
  note share = hundredths_percentage [OF this]
  show ?thesis
    using share by (intro exI [of _ "hundredths (percentage (unat n) (length ms))"])
      (simp add: row_text_def whole fixed_text_hundredths Let_def)
qed

lemma length_share_column:
  assumes "h \<le> 10000"
  shows "length (right_aligned 6 (decimal (h div 100) @ ''.'' @ zero_padded 2 (h mod 100))) = 6"
proof -
  have "h div 100 < 10 ^ 3" using assms by simp
  then have "length (decimal (h div 100)) \<le> 3" by (rule length_decimal) simp
  moreover have "length (zero_padded 2 (h mod 100)) = 2" by (rule length_padded) simp_all
  ultimately show ?thesis by (simp add: right_aligned_def)
qed

end
