(* ===== verification/Build_Agreement.thy ===== *)
theory Build_Agreement
  imports Replay_Report Count_Report
begin

text \<open>
  The two builds of the program. Assertions only observe: whatever a debug build computes
  without stopping, the release build computes too. The argument goes operation by
  operation and is lifted to whole runs of the tools.
\<close>

definition agrees_run :: "'a run \<Rightarrow> 'a run \<Rightarrow> bool" where
  "agrees_run m m' \<longleftrightarrow> (\<forall>x. m = Inr x \<longrightarrow> m' = Inr x)"

named_theorems agrees_intros \<open>composition of agreeing computations\<close>

lemma agrees_refl [agrees_intros]: "agrees_run m m"
  by (simp add: agrees_run_def)

lemma agrees_bind [agrees_intros]:
  "agrees_run m m' \<Longrightarrow> (\<And>x. agrees_run (f x) (f' x)) \<Longrightarrow> agrees_run (bind_run m f) (bind_run m' f')"
  by (auto simp: agrees_run_def bind_run_Inr_iff)

lemma agrees_assert [agrees_intros]: "agrees_run (assert_run Debug c) (assert_run Release c)"
  by (simp add: agrees_run_def)

lemma agrees_fold:
  assumes "\<And>m s. m \<in> set ms \<Longrightarrow> agrees_run (f m s) (f' m s)"
  shows "agrees_run (fold_run f ms s) (fold_run f' ms s)"
  using assms
proof (induction ms arbitrary: s)
  case (Cons m ms)
  then show ?case by (auto intro!: agrees_bind)
qed (simp add: agrees_refl)

section \<open>The book and the tools\<close>

lemma reduce_or_remove_in_agrees [agrees_intros]:
  "agrees_run (reduce_or_remove_in cmp Debug levels table location ref sr ra)
     (reduce_or_remove_in cmp Release levels table location ref sr ra)"
  unfolding reduce_or_remove_in_def Let_def
  by (intro agrees_bind agrees_assert)
    (auto simp del: assert_run_simps split: option.split intro!: agrees_intros)

lemma reduce_or_remove_agrees [agrees_intros]:
  "agrees_run (reduce_or_remove Debug ref sr ra bk) (reduce_or_remove Release ref sr ra bk)"
  unfolding reduce_or_remove_def by (auto split: option.split intro!: agrees_intros)

lemma set_locate_agrees [agrees_intros]:
  "agrees_run (set_locate Debug loc bk) (set_locate Release loc bk)"
  unfolding set_locate_def by (intro agrees_intros)

lemma deliver_book_agrees [agrees_intros]:
  "agrees_run (deliver (book_handler Debug) m bk) (deliver (book_handler Release) m bk)"
  by (cases m)
    (auto simp: book_handler_def book_executed_def book_executed_with_price_def book_cancel_def
      book_delete_def book_replace_def split: option.split intro!: agrees_intros)

lemma deliver_replay_agrees:
  "agrees_run (deliver (replay_handler Debug) m s) (deliver (replay_handler Release) m s)"
proof -
  have book: "agrees_run (on_book f d s) (on_book f' d s)"
    if "agrees_run (f d (rp_book s)) (f' d (rp_book s))"
    for f f' :: "'d \<Rightarrow> order_book \<Rightarrow> order_book run" and d
    using that unfolding on_book_def by (intro agrees_intros)
  show ?thesis
    using deliver_book_agrees [of m "rp_book s"]
    by (cases m)
      (auto simp: replay_handler_def replay_stock_directory_def intro!: agrees_intros book)
qed

lemma deliver_census_agrees:
  "wf_message m \<Longrightarrow>
     agrees_run (deliver (census_handler Debug) m c) (deliver (census_handler Release) m c)"
  by (simp add: deliver_census agrees_refl)

lemma parse_all_agrees:
  assumes "\<And>m s. wf_message m \<Longrightarrow> agrees_run (deliver h m s) (deliver h' m s)"
  shows "agrees_run (parse_all Debug file h s) (parse_all Release file h' s)"
proof -
  have release: "passes_asserts Release file" by (simp add: passes_asserts_def)
  have "agrees_run (fold_run (deliver h) (session_messages file) s)
      (fold_run (deliver h') (session_messages file) s)"
    by (rule agrees_fold) (use assms wf_session_messages in blast)
  then have fold: "fold_run (deliver h') (session_messages file) s = Inr s'"
    if "fold_run (deliver h) (session_messages file) s = Inr s'" for s'
    using that by (simp add: agrees_run_def)
  show ?thesis
    unfolding agrees_run_def
  proof (intro allI impI)
    fix x
    assume run: "parse_all Debug file h s = Inr x"
    obtain out s' where x: "x = (out, s')" by (cases x)
    note parsed = parse_all_Inr [OF run [unfolded x]]
    show "parse_all Release file h' s = Inr x"
      by (simp add: parse_all_deliver [OF release] fold [OF parsed(3)] parsed(2) x)
  qed
qed

lemma book_replay_main_agrees:
  "agrees_run (book_replay_main Debug open_file argv) (book_replay_main Release open_file argv)"
  unfolding book_replay_main_def
  by (auto split: list.split sum.split
      intro!: agrees_intros parse_all_agrees deliver_replay_agrees)

lemma book_replay_program_agrees:
  "agrees_run (book_replay_program Debug open_file argv) (book_replay_program Release open_file argv)"
  unfolding book_replay_program_def book_replay_session_def
  by (auto split: list.split sum.split
      intro!: agrees_intros parse_all_agrees deliver_replay_agrees)

lemma itch_count_program_agrees:
  "agrees_run (itch_count_program Debug sort_rows open_file elapsed_ns argv)
     (itch_count_program Release sort_rows open_file elapsed_ns argv)"
  unfolding itch_count_program_def itch_count_session_def
  by (auto split: list.split sum.split
      intro!: agrees_intros parse_all_agrees deliver_census_agrees)

end
