(* ===== verification/Book_Faults.thy ===== *)
theory Book_Faults
  imports Book_Isolation Replay_Report
begin

text \<open>
  Feeds the book does not expect: more executed or cancelled than rests, sides without a
  name, order messages and announcements with locate 0. What the code does with each is
  derived from the effects of the operations, for every book that keeps its invariant.
\<close>

section \<open>Taking more than rests\<close>

text \<open>The 32-bit shares of the order and the 64-bit total of its level wrap apart.\<close>

lemma ucast_sub_wraps:
  fixes n k :: u32
  assumes "n < k"
  shows "(ucast (n - k) :: u64) \<noteq> ucast n - ucast k"
proof
  assume "(ucast (n - k) :: u64) = ucast n - ucast k"
  then have "(ucast (n - k) + ucast k :: u64) = ucast n" by simp
  moreover have "unat (n - k) < 2 ^ LENGTH(32)" "unat k < 2 ^ LENGTH(32)" by (rule unsigned_less)+
  then have "unat (ucast (n - k) + ucast k :: u64) = unat (n - k) + unat k"
    by (simp add: unat_word_ariths unat_ucast_u64)
  ultimately have "unat (n - k) + unat k = unat n" by (metis unat_ucast_u64)
  then show False using assms by (simp add: word_less_nat_alt)
qed

lemma level_shares_over_reduced:
  assumes "nodes_ok nn l" and "pl_total_shares l = level_shares l"
    and "(it, r) \<in> set (pl_orders l)" and "ro_shares r < k"
  shows "pl_total_shares (reduced it r k False l) \<noteq> level_shares (reduced it r k False l)"
proof -
  have "- c = a - b \<longleftrightarrow> a = b - c" for a b c :: u64 by (auto simp: algebra_simps)
  then show ?thesis
    using assms(1-3) ucast_sub_wraps [OF assms(4)]
      sum_store [of "pl_orders l" it r "\<lambda>x. ucast (ro_shares x) :: u64"]
    by (simp add: reduced_def level_shares_def nodes_ok_def)
qed

text \<open>The queue then holds the order where it was, with its shares wrapped.\<close>

definition wrap_shares :: "u64 \<Rightarrow> u32 \<Rightarrow> (u64 \<times> u32) list \<Rightarrow> (u64 \<times> u32) list" where
  "wrap_shares ref k q = map (\<lambda>(x, s). (x, if x = ref then s - k else s)) q"

lemma edit_queue_wraps:
  assumes "\<And>s. (ref, s) \<in> set q \<Longrightarrow> s \<noteq> k"
  shows "edit_queue ref (left_after False k) q = wrap_shares ref k q"
  using assms by (induction q) (auto simp: edit_queue_def wrap_shares_def left_after_def)

lemma queue_shares:
  assumes "rep_ok bk" and "(ref, s) \<in> set (queue_at (side_levels sd bk) p)"
  shows "resting_shares bk ref = Some s"
proof -
  obtain it r where r: "rests_at (side_levels sd bk) p it r" "ro_order_reference r = ref" "ro_shares r = s"
    using assms(2) by (auto simp: set_queue_at)
  then obtain l where l: "map_of (side_levels sd bk) p = Some l" "(it, r) \<in> set (pl_orders l)"
    by (auto simp: rests_at_def)
  have "table_find ref (orders bk) = Some \<lparr>ol_side = sd, ol_price = p, ol_position = it\<rparr>"
    using queue_member_in_table [OF assms(1) r(1)] r(2) by simp
  from resting_shares_located [OF assms(1) this] l r(3) show ?thesis by simp
qed

text \<open>The total of the level that holds the order goes down, modulo \<open>2 ^ 64\<close>; no other changes.\<close>

definition charge_total :: "u64 \<Rightarrow> u32 \<Rightarrow> (u64 \<times> u32) list \<Rightarrow> u64 option \<Rightarrow> u64 option" where
  "charge_total ref k q = map_option (\<lambda>t. if ref \<in> fst ` set q then t - ucast k else t)"

lemma queue_holds_located:
  assumes "rep_ok bk" and "table_find ref (orders bk) = Some loc"
  shows "ref \<in> fst ` set (queue_at (side_levels sd bk) p) \<longleftrightarrow> sd = ol_side loc \<and> p = ol_price loc"
proof
  assume "ref \<in> fst ` set (queue_at (side_levels sd bk) p)"
  then obtain it r where "rests_at (side_levels sd bk) p it r" "ro_order_reference r = ref"
    by (auto simp: set_queue_at)
  from queue_member_in_table [OF assms(1) this(1)] this(2) assms(2)
  show "sd = ol_side loc \<and> p = ol_price loc" by simp
next
  assume "sd = ol_side loc \<and> p = ol_price loc"
  moreover obtain r where "rests_at (side_levels (ol_side loc) bk) (ol_price loc) (ol_position loc) r"
    "ro_order_reference r = ref"
    using assms by (auto simp: rep_ok_def linked_def)
  ultimately have "(ref, ro_shares r) \<in> set (queue_at (side_levels sd bk) p)"
    by (auto simp: set_queue_at)
  then show "ref \<in> fst ` set (queue_at (side_levels sd bk) p)" by force
qed

lemma level_reduced:
  assumes "changes_level sd p (reduced it r k False l) bk bk'" and "(it, r) \<in> set (pl_orders l)"
  shows "map_of (side_levels sd bk') p = Some (reduced it r k False l)"
  using assms by (auto simp: changes_level_def replace_level_def reduced_def)

lemma total_at_reduced:
  assumes "changes_level sd' p' (reduced it r k False l) bk bk'"
    and "map_of (side_levels sd' bk) p' = Some l" and "(it, r) \<in> set (pl_orders l)"
  shows "total_at (side_levels sd bk') p =
    map_option (\<lambda>t. if sd = sd' \<and> p = p' then t - ucast k else t) (total_at (side_levels sd bk) p)"
proof -
  have "map_of (side_levels sd bk') p =
      (if sd = sd' \<and> p = p' then Some (reduced it r k False l) else map_of (side_levels sd bk) p)"
    using level_reduced [OF assms(1,3)] assms(1)
    by (cases "sd = sd'") (auto simp: changes_level_def replace_level_def)
  then show ?thesis using assms(2) by (auto simp: total_at_def reduced_def option.map_ident)
qed

lemma over_reduce_debug:
  assumes "rep_ok bk" and "resting_shares bk ref = Some n" and "n < k"
  shows "reduce_or_remove Debug ref k False bk = Inl AssertFailed"
proof -
  obtain loc where loc: "table_find ref (orders bk) = Some loc"
    using assms(2) by (auto simp: resting_shares_def split: option.splits)
  show ?thesis
  proof (rule rep_ok_locate [OF assms(1) loc])
    fix l r
    assume l: "map_of (side_levels (ol_side loc) bk) (ol_price loc) = Some l"
      and r: "(ol_position loc, r) \<in> set (pl_orders l)" "map_of (pl_orders l) (ol_position loc) = Some r"
      and sd: "ol_side loc = side_of_flag (ol_side loc = Buy)"
    have "ro_shares r < k" using resting_shares_located [OF assms(1) loc l r(1)] assms(2,3) by simp
    moreover have "map_of (side_levels (side_of_flag (ol_side loc = Buy)) bk) (ol_price loc) = Some l"
      using l by (simp flip: sd)
    ultimately show ?thesis
      using book_side.reduce_or_remove_in_over [OF book_side_order
          sorted_side [OF rep_ok_heap [OF assms(1)]] _ r(2)]
      by (simp add: reduce_or_remove_put [OF loc refl])
  qed
qed

lemma over_reduce_release:
  assumes "rep_ok bk" and "resting_shares bk ref = Some n" and "n < k"
  shows "\<exists>bk'. reduce_or_remove Release ref k False bk = Inr bk' \<and> \<not> rep_ok bk' \<and> heap_ok bk' \<and>
      orders bk' = orders bk \<and> locate bk' = locate bk \<and> book_stats bk' = book_stats bk \<and>
      (\<forall>sd p. queue_at (side_levels sd bk') p = wrap_shares ref k (queue_at (side_levels sd bk) p)) \<and>
      (\<forall>sd p. total_at (side_levels sd bk') p =
         charge_total ref k (queue_at (side_levels sd bk) p) (total_at (side_levels sd bk) p))"
proof -
  obtain loc where loc: "table_find ref (orders bk) = Some loc"
    using assms(2) by (auto simp: resting_shares_def split: option.splits)
  obtain bk' where run: "reduce_or_remove Release ref k False bk = Inr bk'"
    using reduce_safe [OF rep_ok_anchored [OF assms(1)], of Release ref k False]
    by (auto simp: safe_result_Release)
  show ?thesis
  proof (rule rep_ok_reduce_effect [OF assms(1) run loc])
    fix l r removed gone
    assume l: "map_of (side_levels (ol_side loc) bk) (ol_price loc) = Some l"
      and r: "(ol_position loc, r) \<in> set (pl_orders l)"
      and level: "nodes_ok (next_node bk) l" "pl_total_shares l = level_shares l"
      and removed: "removed = (if False then ro_shares r else k)"
        "gone \<longleftrightarrow> False \<or> ro_shares r - removed = 0"
      and changes: "changes_level (ol_side loc) (ol_price loc) (reduced (ol_position loc) r removed gone l) bk bk'"
      and table: "orders bk' = (if gone then table_erase ref (orders bk) else orders bk)"
      and rest: "heap_ok bk'" "locate bk' = locate bk" "book_stats bk' = book_stats bk"
    have n: "ro_shares r = n" using resting_shares_located [OF assms(1) loc l r] assms(2) by simp
    then have stays: "\<not> gone" "removed = k" using assms(3) removed by auto
    have "map_of (side_levels (ol_side loc) bk') (ol_price loc) =
        Some (reduced (ol_position loc) r k False l)"
      using level_reduced [OF _ r] changes stays by simp
    then have "\<not> rep_ok bk'"
      using level_shares_over_reduced [OF level r, of k] n assms(3)
      by (auto simp: rep_ok_def side_levels_ok_def level_ok_def)
    moreover have "queue_at (side_levels sd bk') p = wrap_shares ref k (queue_at (side_levels sd bk) p)" for sd p
      unfolding queue_at_reduce [OF assms(1) run]
      by (rule edit_queue_wraps) (use queue_shares [OF assms(1)] assms(2,3) in fastforce)
    moreover have "total_at (side_levels sd bk') p =
        charge_total ref k (queue_at (side_levels sd bk) p) (total_at (side_levels sd bk) p)" for sd p
      using total_at_reduced [OF _ l r] changes stays
      by (simp add: charge_total_def queue_holds_located [OF assms(1) loc])
    ultimately show ?thesis using run table stays rest by auto
  qed
qed

lemmas over_reduce = over_reduce_debug over_reduce_release

section \<open>A reference that already rests\<close>

text \<open>The new order joins its queue, but \<open>emplace\<close> keeps the table's entry: an orphan.\<close>

lemma duplicate_insert_orphans:
  assumes "rep_ok bk" and "table_find ref (orders bk) = Some loc"
    and "insert_on_side buy ref price shares bk = bk'"
  shows "orphaned (side_of_flag buy) price (next_node bk)
    \<lparr>ro_order_reference = ref, ro_shares = shares\<rparr> bk'" and "orders bk' = orders bk"
proof -
  have heap: "heap_ok bk" using assms(1) by simp
  note effect = insert_on_side_effect [OF heap assms(3) refl]
  show table: "orders bk' = orders bk"
    using assms(2) by (simp add: effect(2) table_emplace_def table_find_def)
  have "table_find k (orders bk) \<noteq>
      Some \<lparr>ol_side = side_of_flag buy, ol_price = price, ol_position = next_node bk\<rparr>" for k
  proof
    assume "table_find k (orders bk) =
      Some \<lparr>ol_side = side_of_flag buy, ol_price = price, ol_position = next_node bk\<rparr>"
    then obtain r where "rests_at (side_levels (side_of_flag buy) bk) price (next_node bk) r"
      using assms(1) by (force simp: rep_ok_def linked_def)
    from rests_at_allocated [OF heap this] show False by simp
  qed
  moreover have "anchored bk'"
    using insert_anchored [OF rep_ok_anchored [OF assms(1)]] assms(3) by blast
  ultimately show "orphaned (side_of_flag buy) price (next_node bk)
      \<lparr>ro_order_reference = ref, ro_shares = shares\<rparr> bk'"
    using rests_at_insert [OF heap assms(3)] by (simp add: orphaned_def table)
qed

lemma duplicate_add_orphans:
  assumes "rep_ok bk" and "stock_locate (ao_header m) = locate bk"
    and "\<not> fresh bk (ao_order_reference m)"
  obtains bk' where "book_add m bk = Inr bk'" and "orders bk' = orders bk"
    and "\<And>sd p. queue_at (side_levels sd bk') p = queue_at (side_levels sd bk) p @
      (if sd = side_of_flag (ao_side m = Buy) \<and> p = ao_price m
       then [(ao_order_reference m, ao_shares m)] else [])"
    and "orphaned (side_of_flag (ao_side m = Buy)) (ao_price m) (next_node bk)
      \<lparr>ro_order_reference = ao_order_reference m, ro_shares = ao_shares m\<rparr> bk'"
proof -
  obtain loc where loc: "table_find (ao_order_reference m) (orders bk) = Some loc"
    using assms(3) by (auto simp: fresh_def)
  define ins where
    "ins = insert_on_side (ao_side m = Buy) (ao_order_reference m) (ao_price m) (ao_shares m) bk"
  note orphan = duplicate_insert_orphans [OF assms(1) loc ins_def [symmetric]]
  note queue = queue_at_insert [OF rep_ok_heap [OF assms(1)] ins_def [symmetric]]
  show thesis
    by (rule that [of "ins\<lparr>book_stats := (book_stats ins)\<lparr>adds := adds (book_stats ins) + 1\<rparr>\<rparr>"])
      (use assms(2) orphan queue in \<open>simp_all add: book_add_def Let_def flip: ins_def\<close>)
qed

lemma orphaned_for_good:
  assumes "orphaned sd p it r bk" and "fold_run (deliver (book_handler b)) ms bk = Inr bk'"
  shows "rests_at (side_levels sd bk') p it r"
    and "table_find ref (orders bk') \<noteq> Some \<lparr>ol_side = sd, ol_price = p, ol_position = it\<rparr>"
    and "\<not> check_rep bk'"
proof -
  have orphan: "orphaned sd p it r bk'" by (rule orphan.run_keeps [OF assms(2,1)])
  then show "rests_at (side_levels sd bk') p it r"
    and "table_find ref (orders bk') \<noteq> Some \<lparr>ol_side = sd, ol_price = p, ol_position = it\<rparr>"
    by (simp_all add: orphaned_def)
  have "heap_ok bk'" using orphan by (simp add: orphaned_def anchored_heap)
  then show "\<not> check_rep bk'" using check_rep_iff orphaned_not_rep_ok [OF orphan] by blast
qed

section \<open>Sides without a name\<close>

lemma add_unnamed_side:
  assumes "heap_ok bk" and "stock_locate (ao_header m) = locate bk" and "ao_side m \<noteq> Buy"
  shows "\<exists>bk'. book_add m bk = Inr bk' \<and>
    (\<forall>sd p. queue_at (side_levels sd bk') p = queue_at (side_levels sd bk) p @
       (if sd = Sell \<and> p = ao_price m then [(ao_order_reference m, ao_shares m)] else []))"
  using assms queue_at_insert [OF assms(1) refl, where buy = False]
  by (simp add: book_add_def Let_def side_of_flag_def)

lemma unnamed_side_stops:
  assumes "wf_message m" and "\<not> names_side m"
  shows "parse_all Debug (encode_session [m]) h s = Inl AssertFailed"
proof -
  have "decode_message Debug (record_type (encode m)) (encode m) = Inl AssertFailed"
    using decode_message_decoded [of "encode m" Debug] valid_encode [OF assms(1)]
      passes_side_check_encode [OF assms(1)] assms(2)
    by simp
  then show ?thesis
    using assms(1)
    by (simp add: parse_all_def frame_all_split split_frames_encode_session deliver_all_def
        dispatch_record_deliver)
qed

section \<open>Locate 0\<close>

text \<open>An unresolved book has locate 0 and takes up what carries it.\<close>

lemma unresolved_add:
  assumes "stock_locate (ao_header m) = 0"
  shows "\<exists>bk. book_add m initial_book = Inr bk \<and> locate bk = 0 \<and> order_count bk = 1 \<and>
    adds (book_stats bk) = 1 \<and>
    (if ao_side m = Buy then best_bid bk else best_ask bk) =
      Some \<lparr>bl_price = ao_price m, bl_shares = ucast (ao_shares m)\<rparr>"
  using assms
  by (simp add: book_add_def initial_book_def insert_on_side_def insert_order_def level_at_def
      empty_level_def table_emplace_def Let_def order_count_def best_bid_def best_ask_def
      best_level_def initial_stats_def)

lemma fold_locate:
  assumes "fold_run (deliver (book_handler b)) ms bk = Inr bk'"
  shows "locate bk' = locate bk"
  by (rule fold_run_invariant [OF assms, where I = "\<lambda>s. locate s = locate bk"])
    (simp_all add: deliver_locate)

text \<open>An announcement with locate 0 stops a debug build and resolves a release build to 0.\<close>

lemma replay_announced_zero:
  assumes "announces symbol (StockDirectory d)" and "stock_locate (sd_header d) = 0"
  shows "deliver (replay_handler Debug) (StockDirectory d) (initial_replay symbol) = Inl AssertFailed"
    and "deliver (replay_handler Release) (StockDirectory d) (initial_replay symbol) =
      Inr ((initial_replay symbol)\<lparr>rp_resolved := True\<rparr>)"
  using assms
  by (simp_all add: replay_handler_def replay_stock_directory_def initial_replay_def set_locate_def
      initial_book_def)

lemma book_replay_locate_zero:
  assumes "open_file path = Inr file" and "passes_asserts Debug file"
    and "session_messages file = pre @ StockDirectory d # rest"
    and "\<forall>m \<in> set pre. waiting symbol m"
    and "announces symbol (StockDirectory d)" and "stock_locate (sd_header d) = 0"
  shows "book_replay_main Debug open_file [program, path, symbol] = Inl AssertFailed"
    and "\<exists>bk. fold_run (deliver (book_handler Release)) rest initial_book = Inr bk \<and> locate bk = 0 \<and>
      book_replay_main Release open_file [program, path, symbol] =
        Inr (if complete (session_outcome file) then 0 else 1,
          Some (report_of symbol bk (session_outcome file)))"
proof -
  have wf: "\<forall>m \<in> set pre. wf_message m \<and> waiting symbol m" "list_all wf_message rest"
    using assms(3,4) wf_session_messages [of _ "file"] by (simp_all add: list_all_iff)
  note waits = fold_replay_waits [OF wf(1)]
  note found = replay_announced_zero [OF assms(5,6), unfolded deliver.simps]
  show "book_replay_main Debug open_file [program, path, symbol] = Inl AssertFailed"
    using assms(1) waits found(1)
    by (simp add: book_replay_main_def parse_all_deliver [OF assms(2)] assms(3) fold_run_append)
  obtain bk where bk: "fold_run (deliver (book_handler Release)) rest initial_book = Inr bk"
    using book_release.fold_total [OF anchored_initial wf(2)] by blast
  moreover have "locate bk = 0" using fold_locate [OF bk] by (simp add: initial_book_def)
  moreover have "passes_asserts Release file" by (simp add: passes_asserts_def)
  then have "book_replay_main Release open_file [program, path, symbol] =
      Inr (if complete (session_outcome file) then 0 else 1,
        Some (report_of symbol bk (session_outcome file)))"
    using assms(1) waits found(2) bk
    by (simp add: book_replay_main_def parse_all_deliver assms(3) fold_run_append
        fold_replay_forwards) (simp add: initial_replay_def)
  ultimately show "\<exists>bk. fold_run (deliver (book_handler Release)) rest initial_book = Inr bk \<and> locate bk = 0 \<and>
      book_replay_main Release open_file [program, path, symbol] =
        Inr (if complete (session_outcome file) then 0 else 1,
          Some (report_of symbol bk (session_outcome file)))"
    by blast
qed

end
