(* ===== verification/Framing_Resume.thy ===== *)
theory Framing_Resume
  imports Session "HOL-Library.Sublist"
begin

text \<open>
  Framing in pieces. A buffer that ends inside a frame is reported as truncated, and what the
  framer consumed of it stands: framing the rest together with further bytes gives what
  framing everything at once gives. Any other fault stays where it is, whatever follows.
\<close>

section \<open>A fault at the head of a longer buffer\<close>

text \<open>More bytes can repair an empty rest and the two truncations, and nothing else.\<close>

definition resumable :: "frame_error option \<Rightarrow> bool" where
  "resumable e \<longleftrightarrow> e = None \<or> e = Some TruncatedPrefix \<or> e = Some TruncatedRecord"

lemma head_fault_append:
  assumes "head_fault rest = None \<or> (\<exists>e c. head_fault rest = Some (e, c) \<and> \<not> resumable (Some e))"
  shows "head_fault (rest @ extra) = head_fault rest"
proof -
  have two: "2 \<le> length rest" using assms by (auto simp: head_fault_def resumable_def split: if_splits)
  show ?thesis
    using assms two by (auto simp: head_fault_def resumable_def Let_def nth_append split: if_splits)
qed

lemma split_frames_append:
  "split_frames (file @ extra) =
     (let (rs, rest) = split_frames file in
      if rest = [] \<or> (\<exists>e c. head_fault rest = Some (e, c) \<and> resumable (Some e))
      then (rs @ fst (split_frames (rest @ extra)), snd (split_frames (rest @ extra)))
      else (rs, rest @ extra))"
proof (induction "file" rule: frames_induct)
  case empty
  then show ?case by (simp add: split_frames_stop)
next
  case (fault rest e c)
  then show ?case
    using head_fault_append [of rest extra] by (auto simp: split_frames_stop)
next
  case (frame rest n)
  have len: "2 + n \<le> length rest" by (rule head_fault_None [OF frame(2,3)])
  then have "take 2 (rest @ extra) = take 2 rest" "subspan (rest @ extra) 2 n = subspan rest 2 n"
    by (simp_all add: subspan_def)
  then show ?case
    using frame len split_frames_step [of "rest @ extra" n] split_frames_step [OF frame(1-3)]
      head_fault_append [of rest extra]
    by (auto simp: Let_def split: prod.splits)
qed

section \<open>Framing in two pieces\<close>

text \<open>The outcome of the whole, from the outcome of a piece and that of what followed it.\<close>

definition resumed :: "frame_outcome \<Rightarrow> frame_outcome \<Rightarrow> frame_outcome" where
  "resumed first second =
     \<lparr>messages = messages first + messages second,
      bytes_consumed = bytes_consumed first + bytes_consumed second,
      frame_error = frame_error second,
      error_offset = (if frame_error second = None then 0 else bytes_consumed first + error_offset second),
      error_type = error_type second\<rparr>"

lemma rest_of_split:
  "snd (split_frames file) =
     drop (length file - length (snd (split_frames file))) file"
proof -
  obtain rs rest where split: "(rs, rest) = split_frames file" by (metis surj_pair)
  from split_frames_sound [OF this] split [symmetric] show ?thesis by auto
qed

lemma frame_error_split:
  "snd sp = [] \<or> head_fault (snd sp) \<noteq> None \<Longrightarrow>
     resumable (frame_error (split_outcome file sp)) \<longleftrightarrow>
       snd sp = [] \<or> (\<exists>e c. head_fault (snd sp) = Some (e, c) \<and> resumable (Some e))"
  by (cases sp) (auto simp: split_outcome_def resumable_def Let_def split: option.splits)

lemma split_outcome_resumed:
  assumes "split_frames file = (rs, rest)"
  shows "split_outcome (file @ extra) (rs @ fst (split_frames (rest @ extra)), snd (split_frames (rest @ extra))) =
    resumed (split_outcome file (rs, rest)) (split_outcome (rest @ extra) (split_frames (rest @ extra)))"
proof -
  obtain rs' rest' where split': "split_frames (rest @ extra) = (rs', rest')" by fastforce
  have "length rest \<le> length file" "length rest' \<le> length rest + length extra"
    using split_frames_sound [OF assms [symmetric]] split_frames_sound [OF split' [symmetric]]
    by (metis length_append le_add2)+
  then show ?thesis
    by (auto simp: split' split_outcome_def resumed_def Let_def split: option.split)
qed

lemma frame_all_append:
  "frame_all (file @ extra) cb s =
     bind_run (frame_all file cb s) (\<lambda>(out, s').
       if resumable (frame_error out)
       then map_run (\<lambda>(out', s''). (resumed out out', s''))
         (frame_all (drop (bytes_consumed out) file @ extra) cb s')
       else Inr (out, s'))"
proof -
  obtain rs rest where split: "split_frames file = (rs, rest)" by fastforce
  have fault: "rest = [] \<or> head_fault rest \<noteq> None"
    using split_frames_sound [OF split [symmetric]] by blast
  let ?out = "split_outcome file (rs, rest)"
  have rest: "drop (bytes_consumed ?out) file = rest"
    using rest_of_split [of "file"]
    by (simp add: split split_outcome_def Let_def split: option.split)
  show ?thesis
  proof (cases "resumable (frame_error ?out)")
    case True
    then have "split_frames (file @ extra) =
        (rs @ fst (split_frames (rest @ extra)), snd (split_frames (rest @ extra)))"
      using frame_error_split [of "(rs, rest)" "file"] fault by (auto simp: split_frames_append split)
    then show ?thesis
      using True rest split_outcome_resumed [OF split, of extra]
      by (cases "deliver_all cb rs s")
        (auto simp: frame_all_split split deliver_all_def fold_run_append map_run_def split: sum.split)
  next
    case False
    then have "split_frames (file @ extra) = (rs, rest @ extra)"
      and "split_outcome (file @ extra) (rs, rest @ extra) = ?out"
      using frame_error_split [of "(rs, rest)" "file"] fault head_fault_append [of rest extra]
      by (auto simp: split_frames_append split split_outcome_def Let_def split: option.splits)
    then show ?thesis
      using False by (cases "deliver_all cb rs s") (simp_all add: frame_all_split split)
  qed
qed

text \<open>A cut file has the first messages of the whole file.\<close>

lemma session_messages_append:
  "\<exists>ms. session_messages (file @ extra) = session_messages file @ ms"
  by (auto simp: session_messages_def session_records_def split_frames_append split: prod.split)

lemma session_messages_take: "prefix (session_messages (take n file)) (session_messages file)"
  using session_messages_append [of "take n file" "drop n file"] by (auto simp: prefix_def)

end
