(* ===== verification/Reference_Book.thy ===== *)
theory Reference_Book
  imports Book_Replay
begin

text \<open>
  \<open>tools/reference_book.py\<close>: the independent book the C++ book is checked against. Its
  levels are plain dictionaries from a price to the total shares there; there is no queue.
  Python's integers are unbounded, a dictionary is an association list without duplicate
  keys, and a missing key (\<open>KeyError\<close>) is the value \<open>None\<close> of the operation.

  \<open>mirrors\<close> relates it to the abstract book. Orders of zero shares are where the two part:
  the reference book deletes a level when its total is zero, the C++ book when its queue is
  empty. On feeds whose orders have shares the books agree; \<open>Reference_Report\<close> has the text
  that \<open>main\<close> prints.
\<close>

section \<open>The book\<close>

record ref_order =
  rf_side :: char
  rf_price :: int
  rf_shares :: int

record ref_book =
  rb_locate :: "int option"
  rb_orders :: "(int \<times> ref_order) list"
  rb_bid_levels :: "(int \<times> int) list"
  rb_ask_levels :: "(int \<times> int) list"
  rb_adds :: int
  rb_executions :: int
  rb_cancels :: int
  rb_deletes :: int
  rb_replaces :: int
  rb_trades :: int

definition ref_init :: ref_book where
  "ref_init = \<lparr>rb_locate = None, rb_orders = [], rb_bid_levels = [], rb_ask_levels = [],
     rb_adds = 0, rb_executions = 0, rb_cancels = 0, rb_deletes = 0, rb_replaces = 0,
     rb_trades = 0\<rparr>"

definition ref_levels :: "char \<Rightarrow> ref_book \<Rightarrow> (int \<times> int) list" where
  "ref_levels side bk = (if side = CHR ''B'' then rb_bid_levels bk else rb_ask_levels bk)"

definition ref_set_levels :: "char \<Rightarrow> (int \<times> int) list \<Rightarrow> ref_book \<Rightarrow> ref_book" where
  "ref_set_levels side levels bk =
     (if side = CHR ''B'' then bk\<lparr>rb_bid_levels := levels\<rparr> else bk\<lparr>rb_ask_levels := levels\<rparr>)"

definition ref_insert :: "int \<Rightarrow> char \<Rightarrow> int \<Rightarrow> int \<Rightarrow> ref_book \<Rightarrow> ref_book" where
  "ref_insert reference side price shares bk =
     (let bk1 = bk\<lparr>rb_orders := AList.update reference
            \<lparr>rf_side = side, rf_price = price, rf_shares = shares\<rparr> (rb_orders bk)\<rparr>;
          levels = ref_levels side bk1;
          old = (case map_of levels price of None \<Rightarrow> 0 | Some n \<Rightarrow> n)
      in ref_set_levels side (AList.update price (old + shares) levels) bk1)"

definition ref_reduce_or_remove :: "int \<Rightarrow> int \<Rightarrow> bool \<Rightarrow> ref_book \<Rightarrow> ref_book option" where
  "ref_reduce_or_remove reference shares_removed remove_all bk =
     (case map_of (rb_orders bk) reference of
        None \<Rightarrow> Some bk
      | Some order \<Rightarrow>
          let removed = (if remove_all then rf_shares order else shares_removed);
              levels = ref_levels (rf_side order) bk
          in case map_of levels (rf_price order) of
               None \<Rightarrow> None
             | Some n \<Rightarrow>
                 let levels1 = AList.update (rf_price order) (n - removed) levels;
                     levels2 = (if n - removed = 0 then AList.delete (rf_price order) levels1
                                else levels1);
                     left = rf_shares order - removed;
                     orders1 = AList.update reference (order\<lparr>rf_shares := left\<rparr>) (rb_orders bk);
                     orders2 = (if remove_all \<or> left = 0 then AList.delete reference orders1
                                else orders1)
                 in Some ((ref_set_levels (rf_side order) levels2 bk)\<lparr>rb_orders := orders2\<rparr>))"

definition ref_add :: "int \<Rightarrow> char \<Rightarrow> int \<Rightarrow> int \<Rightarrow> ref_book \<Rightarrow> ref_book option" where
  "ref_add reference side price shares bk =
     (let bk1 = ref_insert reference side price shares bk
      in Some (bk1\<lparr>rb_adds := rb_adds bk1 + 1\<rparr>))"

definition ref_execute :: "int \<Rightarrow> int \<Rightarrow> ref_book \<Rightarrow> ref_book option" where
  "ref_execute reference shares bk =
     map_option (\<lambda>bk1. bk1\<lparr>rb_executions := rb_executions bk1 + 1\<rparr>)
       (ref_reduce_or_remove reference shares False bk)"

definition ref_cancel :: "int \<Rightarrow> int \<Rightarrow> ref_book \<Rightarrow> ref_book option" where
  "ref_cancel reference shares bk =
     map_option (\<lambda>bk1. bk1\<lparr>rb_cancels := rb_cancels bk1 + 1\<rparr>)
       (ref_reduce_or_remove reference shares False bk)"

definition ref_delete :: "int \<Rightarrow> ref_book \<Rightarrow> ref_book option" where
  "ref_delete reference bk =
     map_option (\<lambda>bk1. bk1\<lparr>rb_deletes := rb_deletes bk1 + 1\<rparr>)
       (ref_reduce_or_remove reference 0 True bk)"

definition ref_replace :: "int \<Rightarrow> int \<Rightarrow> int \<Rightarrow> int \<Rightarrow> ref_book \<Rightarrow> ref_book option" where
  "ref_replace original_reference new_reference shares price bk =
     (case map_of (rb_orders bk) original_reference of
        None \<Rightarrow> Some bk
      | Some order \<Rightarrow>
          map_option (\<lambda>bk1.
              let bk2 = ref_insert new_reference (rf_side order) price shares bk1
              in bk2\<lparr>rb_replaces := rb_replaces bk2 + 1\<rparr>)
            (ref_reduce_or_remove original_reference 0 True bk))"

definition ref_best :: "char \<Rightarrow> ref_book \<Rightarrow> (int \<times> int) option" where
  "ref_best side bk =
     (let levels = ref_levels side bk in
      if levels = [] then None
      else let price = (if side = CHR ''B'' then Max (set (map fst levels))
                        else Min (set (map fst levels)))
        in map_option (Pair price) (map_of levels price))"

section \<open>Applying a record\<close>

text \<open>\<open>struct.unpack\<close> of a big-endian unsigned field, \<open>record[i:i+n]\<close>.\<close>

definition ref_field :: "byte list \<Rightarrow> nat \<Rightarrow> nat \<Rightarrow> int" where
  "ref_field record i n = int (be_value (subspan record i n))"

definition ref_apply :: "byte list \<Rightarrow> ref_book \<Rightarrow> ref_book option" where
  "ref_apply record bk =
     (let ty = char_of_byte (record ! 0) in
      if ty = CHR ''A'' \<or> ty = CHR ''F'' then
        ref_add (ref_field record 11 8) (char_of_byte (record ! 19)) (ref_field record 32 4)
          (ref_field record 20 4) bk
      else if ty = CHR ''E'' \<or> ty = CHR ''C'' then
        ref_execute (ref_field record 11 8) (ref_field record 19 4) bk
      else if ty = CHR ''X'' then
        ref_cancel (ref_field record 11 8) (ref_field record 19 4) bk
      else if ty = CHR ''D'' then ref_delete (ref_field record 11 8) bk
      else if ty = CHR ''U'' then
        ref_replace (ref_field record 11 8) (ref_field record 19 8) (ref_field record 27 4)
          (ref_field record 31 4) bk
      else if ty = CHR ''P'' then Some (bk\<lparr>rb_trades := rb_trades bk + 1\<rparr>)
      else Some bk)"

text \<open>
  \<open>symbol.encode().ljust(8)\<close>; a symbol is ASCII, so its encoding is its characters.
\<close>

definition ref_target :: "string \<Rightarrow> byte list" where
  "ref_target symbol =
     map byte_of_char symbol @ replicate (8 - length symbol) (byte_of_char CHR '' '')"

definition ref_record :: "string \<Rightarrow> byte list \<Rightarrow> ref_book \<times> bool \<Rightarrow> (ref_book \<times> bool) option" where
  "ref_record symbol record st =
     (let (bk, resolved) = st; loc = ref_field record 1 2 in
      if char_of_byte (record ! 0) = CHR ''R'' then
        if \<not> resolved \<and> subspan record 11 8 = ref_target symbol
        then Some (bk\<lparr>rb_locate := Some loc\<rparr>, True) else Some (bk, resolved)
      else if resolved \<and> rb_locate bk = Some loc then
        map_option (\<lambda>bk1. (bk1, resolved)) (ref_apply record bk)
      else Some (bk, resolved))"

fun ref_records :: "string \<Rightarrow> byte list list \<Rightarrow> ref_book \<times> bool \<Rightarrow> (ref_book \<times> bool) option" where
  "ref_records symbol [] st = Some st"
| "ref_records symbol (r # rs) st =
     (case ref_record symbol r st of None \<Rightarrow> None | Some st' \<Rightarrow> ref_records symbol rs st')"

section \<open>Reading the abstract book by Python's keys\<close>

definition spec_at :: "spec_order list \<Rightarrow> int \<Rightarrow> spec_order option" where
  "spec_at ab k = find (\<lambda>x. uint (so_reference x) = k) ab"

lemma uint_eq [simp]: "uint (a :: 'a::len word) = uint b \<longleftrightarrow> a = b"
  by (simp add: word_uint_eq_iff)

definition depth_of :: "side \<Rightarrow> int \<Rightarrow> spec_order list \<Rightarrow> int" where
  "depth_of sd k ab =
     sum_list (map (\<lambda>x. if so_side x = sd \<and> uint (so_price x) = k then uint (so_shares x) else 0) ab)"

lemma depth_of_edit:
  assumes "distinct (map so_reference ab)" and "x \<in> set ab" and "so_reference x = ref"
  shows "depth_of sd k (spec_edit ref f ab) =
    depth_of sd k ab -
      (if so_side x = sd \<and> uint (so_price x) = k
       then uint (so_shares x) - (case f (so_shares x) of None \<Rightarrow> 0 | Some n \<Rightarrow> uint n) else 0)"
  using assms
proof (induction ab)
  case (Cons y ab)
  show ?case
  proof (cases "y = x")
    case True
    then have "spec_fresh ref ab" using Cons.prems by (auto simp: spec_fresh_def)
    then show ?thesis
      using True Cons.prems(3)
      by (simp add: spec_edit_Cons spec_edit_absent depth_of_def split: option.split)
  next
    case False
    then have "x \<in> set ab" "so_reference y \<noteq> ref" using Cons.prems by auto
    then show ?thesis
      using Cons.IH Cons.prems by (simp add: spec_edit_Cons depth_of_def)
  qed
qed simp

lemma spec_at_edit:
  assumes "distinct (map so_reference ab)"
  shows "spec_at (spec_edit ref f ab) k =
    (if k = uint ref
     then Option.bind (spec_at ab k) (\<lambda>x. map_option (\<lambda>n. x\<lparr>so_shares := n\<rparr>) (f (so_shares x)))
     else spec_at ab k)"
  using assms
proof (induction ab)
  case Nil
  then show ?case by (simp add: spec_at_def spec_edit_def)
next
  case (Cons y ab)
  show ?case
  proof (cases "so_reference y = ref")
    case True
    then have fresh: "spec_fresh ref ab" using Cons.prems by (auto simp: spec_fresh_def)
    have "spec_at ab (uint ref) = None"
      using fresh by (auto simp: spec_at_def find_None_iff spec_fresh_def)
    then show ?thesis
      using True fresh
      by (auto simp: spec_edit_Cons spec_edit_absent spec_at_def split: option.split)
  next
    case False
    then show ?thesis
      using Cons.IH Cons.prems
      by (cases "k = uint ref") (simp_all add: spec_edit_Cons spec_at_def)
  qed
qed

lemma spec_at_add:
  assumes "spec_fresh ref ab"
  shows "spec_at (spec_add sd ref p n ab) k =
    (if k = uint ref
     then Some \<lparr>so_reference = ref, so_side = sd, so_price = p, so_shares = n\<rparr> else spec_at ab k)"
  using assms
  by (induction ab) (auto simp: spec_at_def spec_add_def spec_fresh_def)

lemma depth_of_add:
  "depth_of sd' k (spec_add sd ref p n ab) =
     depth_of sd' k ab + (if sd' = sd \<and> uint p = k then uint n else 0)"
  by (auto simp: depth_of_def spec_add_def)

lemma depth_of_nonneg: "0 \<le> depth_of sd k ab"
  unfolding depth_of_def by (rule sum_list_nonneg) auto

lemma depth_of_pos:
  "x \<in> set ab \<Longrightarrow> 0 < uint (so_shares x) \<Longrightarrow> 0 < depth_of (so_side x) (uint (so_price x)) ab"
proof (induction ab)
  case (Cons y ab)
  then show ?case
    using depth_of_nonneg [of "so_side x" "uint (so_price x)" ab]
    by (auto simp: depth_of_def intro: add_pos_nonneg add_nonneg_pos)
qed simp

lemma depth_of_zero:
  "(\<And>x. x \<in> set ab \<Longrightarrow> so_side x = sd \<Longrightarrow> uint (so_price x) \<noteq> k) \<Longrightarrow> depth_of sd k ab = 0"
  by (induction ab) (auto simp: depth_of_def)

lemma depth_of_spec_depth: "depth_of sd (uint p) ab = int (spec_depth sd p ab)"
  by (induction ab) (auto simp: depth_of_def spec_depth_def spec_queue_def)

section \<open>Mirroring the abstract book\<close>

definition mirror_order :: "ref_order \<Rightarrow> spec_order \<Rightarrow> bool" where
  "mirror_order r x \<longleftrightarrow>
     (rf_side r = CHR ''B'' \<longleftrightarrow> so_side x = Buy) \<and> rf_price r = uint (so_price x) \<and>
     rf_shares r = uint (so_shares x)"

definition ref_flag_levels :: "bool \<Rightarrow> ref_book \<Rightarrow> (int \<times> int) list" where
  "ref_flag_levels buy rb = (if buy then rb_bid_levels rb else rb_ask_levels rb)"

definition mirrors_orders :: "ref_book \<Rightarrow> spec_order list \<Rightarrow> bool" where
  "mirrors_orders rb ab \<longleftrightarrow>
     distinct (map fst (rb_orders rb)) \<and> distinct (map so_reference ab) \<and>
     (\<forall>k. rel_option mirror_order (map_of (rb_orders rb) k) (spec_at ab k)) \<and>
     (\<forall>buy. distinct (map fst (ref_flag_levels buy rb)) \<and>
        (\<forall>k. map_of (ref_flag_levels buy rb) k =
           (let d = depth_of (side_of_flag buy) k ab in if d = 0 then None else Some d))) \<and>
     (\<forall>x \<in> set ab. so_side x = side_of_flag (so_side x = Buy) \<and> 0 < uint (so_shares x))"

lemma ref_levels_flag: "ref_levels c rb = ref_flag_levels (c = CHR ''B'') rb"
  by (simp add: ref_levels_def ref_flag_levels_def)

lemma ref_flag_levels_set [simp]:
  "ref_flag_levels buy (ref_set_levels c levels rb) =
     (if buy = (c = CHR ''B'') then levels else ref_flag_levels buy rb)"
  "rb_orders (ref_set_levels c levels rb) = rb_orders rb"
  "ref_flag_levels buy (rb\<lparr>rb_orders := xs\<rparr>) = ref_flag_levels buy rb"
  by (simp_all add: ref_flag_levels_def ref_set_levels_def)

lemma ref_set_levels_orders:
  "(ref_set_levels c levels rb)\<lparr>rb_orders := os\<rparr> = ref_set_levels c levels (rb\<lparr>rb_orders := os\<rparr>)"
  by (simp add: ref_set_levels_def)

lemma side_of_flag_inj [simp]: "side_of_flag a = side_of_flag b \<longleftrightarrow> a = b"
  by (simp add: side_of_flag_def)

text \<open>An entry of a level dictionary: absent when nothing rests.\<close>

definition depth_entry :: "int \<Rightarrow> int option" where
  "depth_entry d = (if d = 0 then None else Some d)"

text \<open>One change of the abstract book, at one price, mirrored in the dictionaries.\<close>

lemma mirrors_orders_change:
  assumes "mirrors_orders rb ab" and "buy \<longleftrightarrow> c = CHR ''B''"
    and "distinct (map fst os)" and "distinct (map so_reference ab')"
    and "\<And>k. rel_option mirror_order (map_of os k) (spec_at ab' k)"
    and "distinct (map fst levels)"
    and "\<And>k. map_of levels k =
      (if k = p then depth_entry (depth_of (side_of_flag buy) p ab + delta)
       else map_of (ref_flag_levels buy rb) k)"
    and "\<And>sd k. depth_of (side_of_flag sd) k ab' =
      depth_of (side_of_flag sd) k ab + (if sd = buy \<and> k = p then delta else 0)"
    and "\<And>x. x \<in> set ab' \<Longrightarrow> so_side x = side_of_flag (so_side x = Buy) \<and> 0 < uint (so_shares x)"
  shows "mirrors_orders ((ref_set_levels c levels rb)\<lparr>rb_orders := os\<rparr>) ab'"
  using assms
  by (auto simp: mirrors_orders_def Let_def depth_entry_def simp del: assms(2))

lemma insert_mirrors:
  assumes "mirrors_orders rb ab" and "spec_fresh ref ab" and "0 < uint shares"
  shows "mirrors_orders (ref_insert (uint ref) c (uint price) (uint shares) rb)
    (spec_add (side_of_flag (c = CHR ''B'')) ref price shares ab)"
proof -
  define buy where "buy \<longleftrightarrow> c = CHR ''B''"
  define old where "old = (case map_of (ref_flag_levels buy rb) (uint price) of None \<Rightarrow> 0 | Some n \<Rightarrow> n)"
  define levels where "levels = AList.update (uint price) (old + uint shares) (ref_flag_levels buy rb)"
  define os where "os = AList.update (uint ref)
    \<lparr>rf_side = c, rf_price = uint price, rf_shares = uint shares\<rparr> (rb_orders rb)"
  have old: "old = depth_of (side_of_flag buy) (uint price) ab"
    using assms(1) by (auto simp: old_def mirrors_orders_def Let_def)
  have pos: "0 < depth_of (side_of_flag buy) (uint price) ab + uint shares"
    using depth_of_nonneg [of "side_of_flag buy" "uint price" ab] assms(3) by simp
  have "mirrors_orders ((ref_set_levels c levels rb)\<lparr>rb_orders := os\<rparr>)
      (spec_add (side_of_flag buy) ref price shares ab)"
  proof (rule mirrors_orders_change [OF assms(1) buy_def, where p = "uint price" and delta = "uint shares"])
    show "distinct (map fst os)" "distinct (map fst levels)"
      using assms(1) by (simp_all add: os_def levels_def mirrors_orders_def distinct_update)
    show "rel_option mirror_order (map_of os k) (spec_at (spec_add (side_of_flag buy) ref price shares ab) k)" for k
      using assms(1)
      by (simp add: os_def update_conv' spec_at_add [OF assms(2)] mirrors_orders_def mirror_order_def
          buy_def side_of_flag_def)
    show "depth_of (side_of_flag sd) k (spec_add (side_of_flag buy) ref price shares ab) =
        depth_of (side_of_flag sd) k ab + (if sd = buy \<and> k = uint price then uint shares else 0)" for sd k
      by (auto simp: depth_of_add)
  qed (use assms pos old in \<open>auto simp: levels_def update_conv' depth_entry_def spec_add_def
      spec_fresh_def mirrors_orders_def side_of_flag_def\<close>)
  then show ?thesis
    by (simp add: ref_insert_def Let_def ref_levels_flag old_def levels_def os_def buy_def ref_set_levels_orders)
qed

text \<open>Everything but the dictionaries.\<close>

definition ref_frame :: "ref_book \<Rightarrow> ref_book" where
  "ref_frame rb = rb\<lparr>rb_orders := [], rb_bid_levels := [], rb_ask_levels := []\<rparr>"

lemma ref_frame_update [simp]:
  "ref_frame (ref_set_levels c levels rb) = ref_frame rb"
  "ref_frame (rb\<lparr>rb_orders := xs\<rparr>) = ref_frame rb"
  by (simp_all add: ref_frame_def ref_set_levels_def)

lemma ref_frame_insert [simp]: "ref_frame (ref_insert k c p n rb) = ref_frame rb"
  by (simp add: ref_insert_def Let_def)

lemma mirrors_orders_cong:
  "rb_orders rb' = rb_orders rb \<Longrightarrow> rb_bid_levels rb' = rb_bid_levels rb \<Longrightarrow>
     rb_ask_levels rb' = rb_ask_levels rb \<Longrightarrow> mirrors_orders rb' ab = mirrors_orders rb ab"
  by (simp add: mirrors_orders_def ref_flag_levels_def)

lemma mirrors_located:
  assumes "mirrors_orders rb ab"
  obtains "map_of (rb_orders rb) (uint ref) = None" "spec_fresh ref ab"
  | r x where "map_of (rb_orders rb) (uint ref) = Some r" "x \<in> set ab" "so_reference x = ref"
      "spec_at ab (uint ref) = Some x" "mirror_order r x"
proof (cases "spec_at ab (uint ref)")
  case None
  then have "spec_fresh ref ab" by (auto simp: spec_at_def find_None_iff spec_fresh_def)
  moreover have "map_of (rb_orders rb) (uint ref) = None"
    using assms None by (metis mirrors_orders_def option.rel_distinct(2) not_None_eq)
  ultimately show thesis using that(1) by blast
next
  case (Some x)
  then have x: "x \<in> set ab" "so_reference x = ref"
    by (auto simp: spec_at_def find_Some_iff)
  have "rel_option mirror_order (map_of (rb_orders rb) (uint ref)) (Some x)"
    using assms Some by (metis mirrors_orders_def)
  then obtain r where "map_of (rb_orders rb) (uint ref) = Some r" "mirror_order r x"
    by (auto simp: option_rel_Some2)
  with x Some show thesis using that(2) by blast
qed

lemma left_after_amount:
  assumes "remove_all \<or> n \<le> s"
  shows "uint s - (case left_after remove_all n s of None \<Rightarrow> 0 | Some m \<Rightarrow> uint m) =
      (if remove_all then uint s else uint n)"
    and "left_after remove_all n s = None \<longleftrightarrow>
      remove_all \<or> uint s - (if remove_all then uint s else uint n) = 0"
    and "left_after remove_all n s = Some m \<Longrightarrow>
      uint m = uint s - (if remove_all then uint s else uint n) \<and> 0 < uint m"
proof -
  have sub: "\<not> remove_all \<Longrightarrow> uint (s - n) = uint s - uint n"
    using assms uint_sub_lem [of n s] by (simp add: word_le_def)
  show "uint s - (case left_after remove_all n s of None \<Rightarrow> 0 | Some m \<Rightarrow> uint m) =
      (if remove_all then uint s else uint n)"
    using sub by (simp add: left_after_def)
  show "left_after remove_all n s = None \<longleftrightarrow>
      remove_all \<or> uint s - (if remove_all then uint s else uint n) = 0"
    by (auto simp: left_after_def)
  assume m: "left_after remove_all n s = Some m"
  then have "\<not> remove_all" "s \<noteq> n" "m = s - n" by (auto simp: left_after_def split: if_splits)
  moreover from this have "uint n < uint s" using assms by (simp add: word_le_def order.strict_iff_order)
  ultimately show "uint m = uint s - (if remove_all then uint s else uint n) \<and> 0 < uint m"
    using sub by simp
qed

text \<open>Editing one order, in the table and in the list of orders.\<close>

lemma mirror_table_edit:
  assumes "\<forall>k. rel_option mirror_order (map_of os k) (spec_at ab k)"
    and "distinct (map so_reference ab)"
    and "map_of os (uint ref) = Some r" and "spec_at ab (uint ref) = Some x"
    and "\<And>m. f (so_shares x) = Some m \<Longrightarrow> uint m = left"
  shows "rel_option mirror_order
    (map_of (let l = AList.update (uint ref) (r\<lparr>rf_shares := left\<rparr>) os
             in if f (so_shares x) = None then AList.delete (uint ref) l else l) k)
    (spec_at (spec_edit ref f ab) k)"
proof (cases "k = uint ref")
  case True
  have "mirror_order r x" using assms(1,3,4) by (metis option.rel_inject(2))
  then show ?thesis
    using True assms(4,5)
    by (cases "f (so_shares x)")
      (simp_all add: Let_def update_conv' delete_conv' spec_at_edit [OF assms(2)] mirror_order_def)
next
  case False
  then show ?thesis
    using assms(1) by (simp add: Let_def update_conv' delete_conv' spec_at_edit [OF assms(2)])
qed

lemma positive_edit:
  assumes "\<forall>x \<in> set ab. so_side x = side_of_flag (so_side x = Buy) \<and> 0 < uint (so_shares x)"
    and "remove_all \<or> spec_may_reduce ref n ab" and "y \<in> set (spec_edit ref (left_after remove_all n) ab)"
  shows "so_side y = side_of_flag (so_side y = Buy)" and "0 < uint (so_shares y)"
proof -
  have "0 < uint m"
    if "z \<in> set ab" "so_reference z = ref" "left_after remove_all n (so_shares z) = Some m" for z m
    using left_after_amount(3) [OF _ that(3)] assms(2) that(1,2) by (auto simp: spec_may_reduce_def)
  then show "so_side y = side_of_flag (so_side y = Buy)" "0 < uint (so_shares y)"
    using assms(1,3) by (fastforce simp: spec_edit_def split: if_splits option.splits)+
qed

text \<open>The dictionaries after a located order is reduced or removed.\<close>

lemma located_reduce_mirrors:
  assumes "mirrors_orders rb ab" and "remove_all \<or> spec_may_reduce ref n ab"
    and "map_of (rb_orders rb) (uint ref) = Some r" and "x \<in> set ab" and "so_reference x = ref"
    and "spec_at ab (uint ref) = Some x" and "mirror_order r x"
  defines "rm \<equiv> (if remove_all then uint (so_shares x) else uint n)"
    and "d \<equiv> depth_of (so_side x) (uint (so_price x)) ab" and "buy \<equiv> so_side x = Buy"
  defines "levels \<equiv> (let l = AList.update (uint (so_price x)) (d - rm) (ref_flag_levels buy rb)
      in if d - rm = 0 then AList.delete (uint (so_price x)) l else l)"
    and "os \<equiv> (let l = AList.update (uint ref) (r\<lparr>rf_shares := uint (so_shares x) - rm\<rparr>) (rb_orders rb)
      in if left_after remove_all n (so_shares x) = None then AList.delete (uint ref) l else l)"
  shows "mirrors_orders ((ref_set_levels (rf_side r) levels rb)\<lparr>rb_orders := os\<rparr>)
      (spec_edit ref (left_after remove_all n) ab)"
    and "map_of (ref_flag_levels buy rb) (uint (so_price x)) = Some d"
proof -
  have side: "so_side x = side_of_flag buy" and shares: "0 < uint (so_shares x)"
    using assms(1,4) by (simp_all add: mirrors_orders_def buy_def)
  have refs: "distinct (map so_reference ab)" using assms(1) by (simp add: mirrors_orders_def)
  have may: "remove_all \<or> n \<le> so_shares x" using assms(2,4,5) by (auto simp: spec_may_reduce_def)
  note amount = left_after_amount [OF may, folded rm_def]
  have "0 < d" using depth_of_pos [OF assms(4) shares] by (simp add: d_def)
  then show "map_of (ref_flag_levels buy rb) (uint (so_price x)) = Some d"
    using assms(1) by (simp add: mirrors_orders_def Let_def d_def side)
  have positive: "\<forall>x \<in> set ab. so_side x = side_of_flag (so_side x = Buy) \<and> 0 < uint (so_shares x)"
    using assms(1) by (simp add: mirrors_orders_def)
  show "mirrors_orders ((ref_set_levels (rf_side r) levels rb)\<lparr>rb_orders := os\<rparr>)
      (spec_edit ref (left_after remove_all n) ab)"
  proof (rule mirrors_orders_change [OF assms(1), where buy = buy and p = "uint (so_price x)" and delta = "- rm"])
    show "buy \<longleftrightarrow> rf_side r = CHR ''B''" using assms(7) by (simp add: mirror_order_def buy_def)
    show "distinct (map fst os)" "distinct (map fst levels)"
      using assms(1)
      by (simp_all add: os_def levels_def Let_def mirrors_orders_def distinct_update distinct_delete)
    show "distinct (map so_reference (spec_edit ref (left_after remove_all n) ab))"
      by (rule distinct_edit [OF refs])
    show "rel_option mirror_order (map_of os k) (spec_at (spec_edit ref (left_after remove_all n) ab) k)" for k
      unfolding os_def
      by (rule mirror_table_edit [OF _ refs assms(3,6)])
        (use assms(1) amount(3) in \<open>auto simp: mirrors_orders_def\<close>)
    show "map_of levels k = (if k = uint (so_price x)
        then depth_entry (depth_of (side_of_flag buy) (uint (so_price x)) ab + - rm)
        else map_of (ref_flag_levels buy rb) k)" for k
      by (simp add: levels_def Let_def update_conv' delete_conv' depth_entry_def d_def side)
    show "depth_of (side_of_flag sd) k (spec_edit ref (left_after remove_all n) ab) =
        depth_of (side_of_flag sd) k ab + (if sd = buy \<and> k = uint (so_price x) then - rm else 0)" for sd k
      using depth_of_edit [OF refs assms(4,5), of "side_of_flag sd" k "left_after remove_all n"] amount(1)
      by (auto simp: side)
    show "so_side y = side_of_flag (so_side y = Buy) \<and> 0 < uint (so_shares y)"
      if "y \<in> set (spec_edit ref (left_after remove_all n) ab)" for y
      using positive_edit [OF positive assms(2) that] by blast
  qed
qed

lemma reduce_mirrors:
  assumes "mirrors_orders rb ab" and "remove_all \<or> spec_may_reduce ref n ab"
  shows "\<exists>rb'. ref_reduce_or_remove (uint ref) (uint n) remove_all rb = Some rb' \<and>
    mirrors_orders rb' (spec_edit ref (left_after remove_all n) ab) \<and> ref_frame rb' = ref_frame rb"
proof (rule mirrors_located [OF assms(1), of ref])
  assume "map_of (rb_orders rb) (uint ref) = None" "spec_fresh ref ab"
  then show ?thesis using assms(1) by (simp add: ref_reduce_or_remove_def spec_edit_absent)
next
  fix r x
  assume r: "map_of (rb_orders rb) (uint ref) = Some r" and x: "x \<in> set ab" "so_reference x = ref"
    and at: "spec_at ab (uint ref) = Some x" and mirror: "mirror_order r x"
  have "rf_side r = CHR ''B'' \<longleftrightarrow> so_side x = Buy" "rf_price r = uint (so_price x)"
    "rf_shares r = uint (so_shares x)"
    using mirror by (simp_all add: mirror_order_def)
  moreover have "remove_all \<or> n \<le> so_shares x" using assms(2) x by (auto simp: spec_may_reduce_def)
  note left_after_amount(2) [OF this]
  moreover note result = located_reduce_mirrors [OF assms r x at mirror]
  ultimately show ?thesis
    using r by (auto simp: ref_reduce_or_remove_def ref_levels_flag Let_def)
qed

section \<open>Every operation keeps the mirror\<close>

definition same_tallies :: "ref_book \<Rightarrow> stats \<Rightarrow> bool" where
  "same_tallies rb st \<longleftrightarrow>
     adds st = word_of_int (rb_adds rb) \<and> executions st = word_of_int (rb_executions rb) \<and>
     cancels st = word_of_int (rb_cancels rb) \<and> deletes st = word_of_int (rb_deletes rb) \<and>
     replaces st = word_of_int (rb_replaces rb) \<and> trades st = word_of_int (rb_trades rb)"

definition mirrors :: "u16 \<Rightarrow> ref_book \<Rightarrow> spec_book \<Rightarrow> bool" where
  "mirrors loc rb s \<longleftrightarrow>
     mirrors_orders rb (sp_orders s) \<and> rb_locate rb = Some (uint loc) \<and> same_tallies rb (sp_stats s)"

lemma ref_frame_eq:
  assumes "ref_frame rb' = ref_frame rb"
  shows "rb_locate rb' = rb_locate rb" "rb_adds rb' = rb_adds rb"
    "rb_executions rb' = rb_executions rb" "rb_cancels rb' = rb_cancels rb"
    "rb_deletes rb' = rb_deletes rb" "rb_replaces rb' = rb_replaces rb" "rb_trades rb' = rb_trades rb"
  using arg_cong [OF assms, of rb_locate] arg_cong [OF assms, of rb_adds]
    arg_cong [OF assms, of rb_executions] arg_cong [OF assms, of rb_cancels]
    arg_cong [OF assms, of rb_deletes] arg_cong [OF assms, of rb_replaces]
    arg_cong [OF assms, of rb_trades]
  by (simp_all add: ref_frame_def)

lemma mirrors_orders_tally [simp]:
  "mirrors_orders (rb\<lparr>rb_adds := n\<rparr>) ab = mirrors_orders rb ab"
  "mirrors_orders (rb\<lparr>rb_executions := n\<rparr>) ab = mirrors_orders rb ab"
  "mirrors_orders (rb\<lparr>rb_cancels := n\<rparr>) ab = mirrors_orders rb ab"
  "mirrors_orders (rb\<lparr>rb_deletes := n\<rparr>) ab = mirrors_orders rb ab"
  "mirrors_orders (rb\<lparr>rb_replaces := n\<rparr>) ab = mirrors_orders rb ab"
  "mirrors_orders (rb\<lparr>rb_trades := n\<rparr>) ab = mirrors_orders rb ab"
  "mirrors_orders (rb\<lparr>rb_locate := l\<rparr>) ab = mirrors_orders rb ab"
  by (rule mirrors_orders_cong; simp)+

lemma mirrors_reduce:
  assumes "mirrors loc rb s" and "remove_all \<or> spec_may_reduce ref n (sp_orders s)"
  obtains rb' where "ref_reduce_or_remove (uint ref) (uint n) remove_all rb = Some rb'"
    "mirrors loc rb' (s\<lparr>sp_orders := spec_edit ref (left_after remove_all n) (sp_orders s)\<rparr>)"
proof -
  have "mirrors_orders rb (sp_orders s)" using assms(1) by (simp add: mirrors_def)
  then obtain rb' where rb': "ref_reduce_or_remove (uint ref) (uint n) remove_all rb = Some rb'"
    "mirrors_orders rb' (spec_edit ref (left_after remove_all n) (sp_orders s))"
    and frame: "ref_frame rb' = ref_frame rb"
    using reduce_mirrors assms(2) by blast
  have "mirrors loc rb' (s\<lparr>sp_orders := spec_edit ref (left_after remove_all n) (sp_orders s)\<rparr>)"
    using assms(1) rb'(2) by (simp add: mirrors_def same_tallies_def ref_frame_eq [OF frame])
  with rb'(1) show thesis by (rule that)
qed

lemma mirrors_insert:
  assumes "mirrors loc rb s" and "spec_fresh ref (sp_orders s)" and "n \<noteq> 0"
  shows "mirrors loc (ref_insert (uint ref) c (uint p) (uint n) rb)
    (s\<lparr>sp_orders := spec_add (side_of_flag (c = CHR ''B'')) ref p n (sp_orders s)\<rparr>)"
proof -
  have "0 < uint n" using assms(3) by (metis uint_0_iff uint_ge_0 order_le_imp_less_or_eq)
  with insert_mirrors [of rb "sp_orders s" ref n c p] assms(1,2) show ?thesis
    using ref_frame_eq [OF ref_frame_insert, of "uint ref" c "uint p" "uint n" rb]
    by (simp add: mirrors_def same_tallies_def)
qed

lemma mirrors_add:
  assumes "mirrors loc rb s" and "stock_locate (ao_header m) = loc"
    and "spec_fresh (ao_order_reference m) (sp_orders s)" and "ao_shares m \<noteq> 0"
    and "c = CHR ''B'' \<longleftrightarrow> ao_side m = Buy"
  shows "\<exists>rb'. ref_add (uint (ao_order_reference m)) c (uint (ao_price m)) (uint (ao_shares m)) rb
      = Some rb' \<and> mirrors loc rb' (spec_add_step loc m s)"
  using mirrors_insert [OF assms(1,3,4), of c "ao_price m"] assms(2,5)
  by (simp add: ref_add_def Let_def spec_add_step_def spec_side_def)
    (simp add: mirrors_def same_tallies_def)

lemma mirrors_execute:
  assumes "mirrors loc rb s" and "stock_locate (oe_header m) = loc"
    and "spec_may_reduce (oe_order_reference m) (oe_executed_shares m) (sp_orders s)"
  shows "\<exists>rb'. ref_execute (uint (oe_order_reference m)) (uint (oe_executed_shares m)) rb = Some rb' \<and>
    mirrors loc rb' (spec_executed_step loc m s)"
  by (rule mirrors_reduce [OF assms(1), of False "oe_order_reference m" "oe_executed_shares m"])
    (use assms(2,3) in \<open>auto simp: ref_execute_def spec_executed_step_def mirrors_def same_tallies_def\<close>)

lemma mirrors_cancel:
  assumes "mirrors loc rb s" and "stock_locate (oc_header m) = loc"
    and "spec_may_reduce (oc_order_reference m) (oc_cancelled_shares m) (sp_orders s)"
  shows "\<exists>rb'. ref_cancel (uint (oc_order_reference m)) (uint (oc_cancelled_shares m)) rb = Some rb' \<and>
    mirrors loc rb' (spec_cancel_step loc m s)"
  by (rule mirrors_reduce [OF assms(1), of False "oc_order_reference m" "oc_cancelled_shares m"])
    (use assms(2,3) in \<open>auto simp: ref_cancel_def spec_cancel_step_def mirrors_def same_tallies_def\<close>)

lemma mirrors_delete:
  assumes "mirrors loc rb s" and "stock_locate (od_header m) = loc"
  shows "\<exists>rb'. ref_delete (uint (od_order_reference m)) rb = Some rb' \<and>
    mirrors loc rb' (spec_delete_step loc m s)"
  by (rule mirrors_reduce [OF assms(1), of True "od_order_reference m" 0])
    (use assms(2) in \<open>auto simp: ref_delete_def spec_delete_step_def mirrors_def same_tallies_def\<close>)

lemma spec_fresh_removed:
  "new = ref \<or> spec_fresh new ab \<Longrightarrow> spec_fresh new (spec_edit ref (left_after True n) ab)"
  by (auto simp: spec_fresh_def references_remove)

lemma mirrors_replace:
  assumes "mirrors loc rb s" and "stock_locate (ore_header m) = loc" and "ore_shares m \<noteq> 0"
    and "spec_admits loc (sp_orders s) (OrderReplace m)"
  shows "\<exists>rb'. ref_replace (uint (ore_original_order_reference m)) (uint (ore_new_order_reference m))
      (uint (ore_shares m)) (uint (ore_price m)) rb = Some rb' \<and>
    mirrors loc rb' (spec_replace_step loc m s)"
proof -
  let ?ref = "ore_original_order_reference m" and ?new = "ore_new_order_reference m"
  have orders: "mirrors_orders rb (sp_orders s)" using assms(1) by (simp add: mirrors_def)
  show ?thesis
  proof (rule mirrors_located [OF orders, of ?ref])
    assume "map_of (rb_orders rb) (uint ?ref) = None" "spec_fresh ?ref (sp_orders s)"
    then show ?thesis
      using assms(1) spec_find_None [of ?ref "sp_orders s"]
      by (simp add: ref_replace_def spec_replace_step_def)
  next
    fix r x
    assume r: "map_of (rb_orders rb) (uint ?ref) = Some r" and x: "x \<in> set (sp_orders s)"
      "so_reference x = ?ref" and mirror: "mirror_order r x"
    have found: "spec_find ?ref (sp_orders s) = Some x"
      using spec_find_distinct [OF _ x] orders by (simp add: mirrors_orders_def)
    have side: "so_side x = side_of_flag (rf_side r = CHR ''B'')"
    proof -
      have "so_side x = side_of_flag (so_side x = Buy)"
        using orders x(1) unfolding mirrors_orders_def by blast
      moreover have "(so_side x = Buy) = (rf_side r = CHR ''B'')"
        using mirror unfolding mirror_order_def by blast
      ultimately show ?thesis by metis
    qed
    obtain rb1 where rb1: "ref_reduce_or_remove (uint ?ref) 0 True rb = Some rb1"
      and m1: "mirrors loc rb1 (s\<lparr>sp_orders := spec_edit ?ref (left_after True 0) (sp_orders s)\<rparr>)"
      by (rule mirrors_reduce [OF assms(1), of True ?ref 0]) simp_all
    have "\<not> spec_fresh ?ref (sp_orders s)" using x unfolding spec_fresh_def by (metis imageI)
    then have "spec_fresh ?new (spec_edit ?ref (left_after True 0) (sp_orders s))"
      using assms(2,4) by (intro spec_fresh_removed) simp
    then show ?thesis
      using mirrors_insert [OF m1, of ?new "ore_shares m" "rf_side r" "ore_price m"] assms(2,3) r rb1
      by (simp add: ref_replace_def spec_replace_step_def found side Let_def)
        (simp add: mirrors_def same_tallies_def)
  qed
qed

section \<open>Records and the announcement\<close>

lemma ref_field_load:
  "i + n \<le> length r \<Longrightarrow> n = LENGTH('a) div 8 \<Longrightarrow>
     ref_field r i n = uint (load_big_endian (subspan r i n) :: 'a::len word)"
  by (simp add: ref_field_def unat_load_big_endian uint_nat)

lemmas ref_fields =
  ref_field_load [where 'a = 64] ref_field_load [where 'a = 32] ref_field_load [where 'a = 16]

fun has_shares :: "message \<Rightarrow> bool" where
  "has_shares (AddOrder m) \<longleftrightarrow> ao_shares m \<noteq> 0"
| "has_shares (AddOrderWithMpid m) \<longleftrightarrow> ao_shares (am_order m) \<noteq> 0"
| "has_shares (OrderReplace m) \<longleftrightarrow> ore_shares m \<noteq> 0"
| "has_shares _ \<longleftrightarrow> True"

text \<open>Messages of a locate carry shares.\<close>

definition funded :: "u16 \<Rightarrow> message \<Rightarrow> bool" where
  "funded loc m \<longleftrightarrow> stock_locate (message_header m) = loc \<longrightarrow> has_shares m"

lemma mirrors_trade:
  "mirrors loc rb s \<Longrightarrow>
     mirrors loc (rb\<lparr>rb_trades := rb_trades rb + 1\<rparr>)
       (s\<lparr>sp_stats := (sp_stats s)\<lparr>trades := trades (sp_stats s) + 1\<rparr>\<rparr>)"
  by (simp add: mirrors_def same_tallies_def)

lemma side_char_Buy: "side_of_char c = Buy \<longleftrightarrow> c = CHR ''B''"
  by (simp add: side_of_char_def)

lemma record_head: "valid_record r \<Longrightarrow> char_of_byte (r ! 0) = record_type r"
  by (simp add: valid_record_def record_type_def hd_conv_nth)

lemma ref_apply_mirrors:
  assumes "valid_record r" and "mirrors loc rb s"
    and "stock_locate (message_header (decoded r)) = loc"
    and "spec_admits loc (sp_orders s) (decoded r)" and "has_shares (decoded r)"
  shows "\<exists>rb'. ref_apply r rb = Some rb' \<and> mirrors loc rb' (spec_step loc (decoded r) s)"
proof -
  note len = valid_record_length [OF assms(1)]
  note ops = mirrors_add [OF assms(2), where c = "char_of_byte (r ! 19)" and m = "add_order_at r"]
    mirrors_execute [OF assms(2), of "order_executed_at r"]
    mirrors_cancel [OF assms(2), of "order_cancel_at r"]
    mirrors_delete [OF assms(2), of "order_delete_at r"]
    mirrors_replace [OF assms(2), of "order_replace_at r"] mirrors_trade [OF assms(2)]
  show ?thesis
  proof (cases r rule: record_type_cases)
    case other
    then show ?thesis
      using assms(2) by (auto simp: ref_apply_def record_head [OF assms(1)] decoded_def decoded_types_def)
  qed (use assms(2-5) len ops in
      \<open>simp_all add: ref_apply_def record_head [OF assms(1)] decoded_def spec_message_length_simps
        ref_fields add_order_at_def add_order_with_mpid_at_def order_executed_at_def
        order_executed_with_price_at_def order_cancel_at_def order_delete_at_def
        order_replace_at_def trade_non_cross_at_def side_char_Buy\<close>)
qed

lemma decoded_locate:
  assumes "valid_record r"
  shows "uint (stock_locate (message_header (decoded r))) = ref_field r 1 2"
proof -
  have "11 \<le> length r" using valid_record_header_length [OF assms] by (simp add: kHeaderLength_def)
  then show ?thesis
    by (cases r rule: record_type_cases)
      (auto simp: decoded_def decoded_types_def ref_field_load [where 'a = 16] header_at_def
        add_order_at_def order_delete_at_def order_executed_at_def order_cancel_at_def
        order_replace_at_def add_order_with_mpid_at_def order_executed_with_price_at_def
        trade_non_cross_at_def system_event_at_def stock_directory_at_def)
qed

lemma ref_record_mirrors:
  assumes "valid_record r" and "mirrors loc rb s"
    and "spec_admits loc (sp_orders s) (decoded r)" and "funded loc (decoded r)"
  shows "\<exists>rb'. ref_record symbol r (rb, True) = Some (rb', True) \<and>
    mirrors loc rb' (spec_step loc (decoded r) s)"
proof (cases "record_type r = CHR ''R''")
  case True
  then show ?thesis
    using assms(2) by (simp add: ref_record_def record_head [OF assms(1)] decoded_def)
next
  case False
  have locate: "rb_locate rb = Some (uint loc)" using assms(2) by (simp add: mirrors_def)
  show ?thesis
  proof (cases "stock_locate (message_header (decoded r)) = loc")
    case True
    then have "uint loc = ref_field r 1 2" using decoded_locate [OF assms(1)] by simp
    then show ?thesis
      using ref_apply_mirrors [OF assms(1,2) True assms(3)] assms(4) False True locate
      by (auto simp: ref_record_def record_head [OF assms(1)] funded_def Let_def)
  next
    case other: False
    then have "uint loc \<noteq> ref_field r 1 2" using decoded_locate [OF assms(1)] uint_eq by metis
    then show ?thesis
      using assms(2) False locate
      by (simp add: ref_record_def record_head [OF assms(1)] spec_step_foreign [OF other])
  qed
qed

lemma ref_records_mirrors:
  assumes "list_all valid_record rs" and "mirrors loc rb s"
    and "spec_admits_all loc s (map decoded rs)" and "\<forall>m \<in> set (map decoded rs). funded loc m"
  shows "\<exists>rb'. ref_records symbol rs (rb, True) = Some (rb', True) \<and>
    mirrors loc rb' (spec_run loc (map decoded rs) s)"
  using assms
proof (induction rs arbitrary: rb s)
  case Nil
  then show ?case by simp
next
  case (Cons r rs)
  then obtain rb1 where "ref_record symbol r (rb, True) = Some (rb1, True)"
    "mirrors loc rb1 (spec_step loc (decoded r) s)"
    using ref_record_mirrors [of r loc rb s symbol] by auto
  then show ?case using Cons.IH Cons.prems by auto
qed

text \<open>A padded field equals the padded symbol when its trimmed text is the symbol.\<close>

lemma trim_padding: "field = trim field @ replicate (length field - length (trim field)) CHR '' ''"
proof -
  let ?sp = "takeWhile (\<lambda>c. c = CHR '' '') (rev field)"
  have "rev field = ?sp @ dropWhile (\<lambda>c. c = CHR '' '') (rev field)" by simp
  then have field: "field = trim field @ rev ?sp"
    unfolding trim_def by (metis rev_append rev_rev_ident)
  have "\<forall>c \<in> set ?sp. c = CHR '' ''" by (auto dest: set_takeWhileD)
  then have "rev ?sp = replicate (length ?sp) CHR '' ''"
    by (metis length_rev replicate_eqI set_rev)
  moreover have "length ?sp = length field - length (trim field)"
    using arg_cong [OF field, of length] by simp
  ultimately show ?thesis using field by simp
qed

lemma trim_append_spaces: "trim (xs @ replicate n CHR '' '') = trim xs"
  by (induction n) (simp_all add: trim_def dropWhile_append replicate_append_same [symmetric])

lemma ref_target_iff:
  assumes "trim symbol = symbol" and "length bytes = 8"
  shows "bytes = ref_target symbol \<longleftrightarrow> trim (map char_of_byte bytes) = symbol"
proof
  assume "bytes = ref_target symbol"
  then have "map char_of_byte bytes = symbol @ replicate (8 - length symbol) CHR '' ''"
    by (simp add: ref_target_def comp_def)
  then show "trim (map char_of_byte bytes) = symbol" using assms(1) by (simp add: trim_append_spaces)
next
  assume trim: "trim (map char_of_byte bytes) = symbol"
  have "map char_of_byte bytes = symbol @ replicate (8 - length symbol) CHR '' ''"
    using trim_padding [of "map char_of_byte bytes"] assms(2) by (simp add: trim)
  then have "map byte_of_char (map char_of_byte bytes) = ref_target symbol"
    by (simp add: ref_target_def)
  then show "bytes = ref_target symbol" by (simp add: comp_def)
qed

lemma announces_record:
  assumes "valid_record r" and "trim symbol = symbol" and "record_type r = CHR ''R''"
  shows "announces symbol (decoded r) \<longleftrightarrow> subspan r 11 8 = ref_target symbol"
proof -
  have "length r = 39"
    using valid_record_length [OF assms(1)] assms(3) by (simp add: spec_message_length_simps)
  then show ?thesis
    using ref_target_iff [OF assms(2), of "subspan r 11 8"] assms(3)
    by (simp add: decoded_def stock_directory_at_def)
qed

lemma ref_records_wait:
  assumes "list_all valid_record rs" and "trim symbol = symbol"
    and "\<forall>m \<in> set (map decoded rs). \<not> announces symbol m"
  shows "ref_records symbol rs (rb, False) = Some (rb, False)"
  using assms
proof (induction rs)
  case (Cons r rs)
  then have r: "valid_record r" "\<not> announces symbol (decoded r)" by simp_all
  then have "ref_record symbol r (rb, False) = Some (rb, False)"
    using announces_record [OF r(1) assms(2)]
    by (auto simp: ref_record_def record_head [OF r(1)] Let_def)
  then show ?case using Cons by simp
qed simp

lemma ref_record_announced:
  assumes "valid_record r" and "trim symbol = symbol" and "decoded r = StockDirectory d"
    and "announces symbol (StockDirectory d)" and "stock_locate (sd_header d) = loc"
  shows "ref_record symbol r (rb, False) = Some (rb\<lparr>rb_locate := Some (uint loc)\<rparr>, True)"
proof -
  have ty: "record_type r = CHR ''R''"
    using assms(3) by (auto simp: decoded_def Let_def split: if_splits)
  then have "subspan r 11 8 = ref_target symbol"
    using announces_record [OF assms(1,2)] assms(3,4) by simp
  moreover have "ref_field r 1 2 = uint loc" using decoded_locate [OF assms(1)] assms(3,5) by simp
  ultimately show ?thesis by (simp add: ref_record_def record_head [OF assms(1)] ty)
qed

lemma mirrors_initial: "mirrors loc (ref_init\<lparr>rb_locate := Some (uint loc)\<rparr>) spec_initial"
  by (simp add: mirrors_def spec_initial_def same_tallies_def initial_stats_def)
    (simp add: mirrors_orders_def ref_init_def ref_flag_levels_def spec_at_def depth_of_def Let_def)

section \<open>The session loop\<close>

definition ref_lengths :: "(char \<times> nat) list" where
  "ref_lengths =
     [(CHR ''S'', 12), (CHR ''R'', 39), (CHR ''H'', 25), (CHR ''Y'', 20), (CHR ''L'', 26),
      (CHR ''V'', 35), (CHR ''W'', 12), (CHR ''K'', 28), (CHR ''J'', 35), (CHR ''h'', 21),
      (CHR ''A'', 36), (CHR ''F'', 40), (CHR ''E'', 31), (CHR ''C'', 36), (CHR ''X'', 23),
      (CHR ''D'', 19), (CHR ''U'', 35), (CHR ''P'', 44), (CHR ''Q'', 40), (CHR ''B'', 19),
      (CHR ''I'', 50), (CHR ''N'', 20)]"

text \<open>What the loop reports, with the values its text prints; a type is \<open>record[0:1]\<close>.\<close>

datatype ref_error = RefTruncatedPrefix nat | RefTruncatedRecord nat
  | RefUnknownType "byte list" nat | RefWrongLength nat "byte list" nat nat

text \<open>\<open>SPEC_LENGTHS.get(record[0:1])\<close>: an empty record has no type and no entry.\<close>

definition ref_expected :: "byte list \<Rightarrow> nat option" where
  "ref_expected record =
     (case record of [] \<Rightarrow> None | c # _ \<Rightarrow> map_of ref_lengths (char_of_byte c))"

text \<open>The loop of \<open>replay\<close>: \<open>None\<close> is an uncaught exception.\<close>

function ref_loop ::
  "string \<Rightarrow> byte list \<Rightarrow> nat \<Rightarrow> ref_book \<times> bool \<Rightarrow> ((ref_book \<times> bool) \<times> ref_error option) option"
  where
  "ref_loop symbol session consumed st =
     (let prefix = take 2 session in
      if length prefix = 0 then Some (st, None)
      else if length prefix < 2 then Some (st, Some (RefTruncatedPrefix consumed))
      else
        let declared = be_value prefix;
            record = take declared (drop 2 session);
            message_type = take 1 record
        in if length record < declared then Some (st, Some (RefTruncatedRecord consumed))
           else (case ref_expected record of
             None \<Rightarrow> Some (st, Some (RefUnknownType message_type consumed))
           | Some expected \<Rightarrow>
               if expected \<noteq> declared then Some (st, Some (RefWrongLength declared message_type consumed expected))
               else (case ref_record symbol record st of
                 None \<Rightarrow> None
               | Some st' \<Rightarrow>
                   ref_loop symbol (drop (2 + declared) session) (consumed + (2 + declared)) st')))"
  by pat_completeness auto
termination
  by (relation "measure (\<lambda>(_, session, _, _). length session)") auto

declare ref_loop.simps [simp del]

definition ref_replay :: "string \<Rightarrow> byte list \<Rightarrow> ((ref_book \<times> bool) \<times> ref_error option) option" where
  "ref_replay symbol session = ref_loop symbol session 0 (ref_init, False)"

lemma ref_lengths_entries:
  "list_all (\<lambda>(c, n). spec_message_length c \<noteq> 0 \<and> spec_size c = n) ref_lengths"
  "list_all (\<lambda>(c, n). c \<in> set (map fst ref_lengths)) spec_length_entries"
  by (simp_all add: ref_lengths_def spec_message_length_simps)

lemma ref_lengths_spec:
  "map_of ref_lengths c = (if spec_message_length c = 0 then None else Some (spec_size c))"
proof (cases "map_of ref_lengths c")
  case (Some n)
  then show ?thesis
    using ref_lengths_entries(1) by (fastforce simp: list_all_iff dest: map_of_SomeD)
next
  case None
  then have "c \<notin> set (map fst ref_lengths)" by (simp add: map_of_eq_None_iff)
  then have "(c, n) \<notin> set spec_length_entries" for n
    using ref_lengths_entries(2) by (fastforce simp: list_all_iff)
  then have "spec_message_length c = 0" using spec_message_length_iff by blast
  with None show ?thesis by simp
qed

text \<open>The error the reference reports for a fault at the head of the remaining bytes.\<close>

fun ref_error_of :: "frame_error \<Rightarrow> byte list \<Rightarrow> nat \<Rightarrow> ref_error" where
  "ref_error_of TruncatedPrefix session n = RefTruncatedPrefix n"
| "ref_error_of ZeroLength session n = RefUnknownType [] n"
| "ref_error_of TruncatedRecord session n = RefTruncatedRecord n"
| "ref_error_of UnknownType session n = RefUnknownType [session ! 2] n"
| "ref_error_of LengthMismatch session n =
     RefWrongLength (be_value (take 2 session)) [session ! 2] n (spec_size (char_of_byte (session ! 2)))"

fun ref_error_offset :: "ref_error \<Rightarrow> nat" where
  "ref_error_offset (RefTruncatedPrefix n) = n"
| "ref_error_offset (RefTruncatedRecord n) = n"
| "ref_error_offset (RefUnknownType t n) = n"
| "ref_error_offset (RefWrongLength declared t n expected) = n"

lemma ref_error_offset_of [simp]: "ref_error_offset (ref_error_of e session n) = n"
  by (cases e) simp_all

text \<open>What the table says of the record behind a length prefix.\<close>

lemma ref_expected_head:
  assumes "2 + n \<le> length session"
  shows "ref_expected (take n (drop 2 session)) =
    (if n = 0 then None else map_of ref_lengths (char_of_byte (session ! 2)))"
proof (cases "n = 0")
  case False
  then have "drop 2 session = session ! 2 # drop 3 session"
    using assms by (simp add: Cons_nth_drop_Suc numeral_3_eq_3 numeral_2_eq_2)
  then show ?thesis using False by (simp add: ref_expected_def take_Cons')
qed (simp add: ref_expected_def)

lemma ref_type_head:
  assumes "2 + n \<le> length session"
  shows "take 1 (take n (drop 2 session)) = (if n = 0 then [] else [session ! 2])"
proof (cases "n = 0")
  case False
  then have "drop 2 session = session ! 2 # drop 3 session"
    using assms by (simp add: Cons_nth_drop_Suc numeral_3_eq_3 numeral_2_eq_2)
  then show ?thesis using False by (simp add: take_Cons')
qed simp

lemma ref_expected_valid: "valid_record r \<Longrightarrow> ref_expected r = Some (length r)"
  by (cases r) (auto simp: ref_expected_def ref_lengths_spec valid_record_def record_type_def)

lemma ref_loop_stop:
  assumes "session \<noteq> []" and "head_fault session = Some (e, c)"
  shows "ref_loop symbol session consumed st = Some (st, Some (ref_error_of e session consumed))"
proof (cases "length session < 2")
  case True
  then show ?thesis
    using assms by (subst ref_loop.simps) (auto simp: head_fault_def Let_def)
next
  case False
  then show ?thesis
    using assms ref_expected_head [of "be_value (take 2 session)" session]
      ref_type_head [of "be_value (take 2 session)" session]
    by (subst ref_loop.simps)
      (auto simp: head_fault_def Let_def ref_lengths_spec split: if_splits)
qed

lemma ref_loop_step:
  assumes "session \<noteq> []" and "head_fault session = None" and "n = be_value (take 2 session)"
  shows "ref_loop symbol session consumed st =
    (case ref_record symbol (subspan session 2 n) st of
       None \<Rightarrow> None
     | Some st' \<Rightarrow> ref_loop symbol (drop (2 + n) session) (consumed + (2 + n)) st')"
proof -
  note head = head_fault_None [OF assms(2,3)]
  have "take n (drop 2 session) = subspan session 2 n" by (simp add: subspan_def)
  moreover have "ref_expected (subspan session 2 n) = Some n"
    using ref_expected_valid [OF head(3)] head(1) by simp
  ultimately show ?thesis
    using assms(1) head(1,2) by (subst ref_loop.simps) (simp add: Let_def flip: assms(3))
qed

lemma ref_loop_split:
  "ref_loop symbol session consumed st =
     map_option (\<lambda>st'. (st',
         if snd (split_frames session) = [] then None
         else map_option (\<lambda>(e, c). ref_error_of e (snd (split_frames session))
           (consumed + (length session - length (snd (split_frames session)))))
           (head_fault (snd (split_frames session)))))
       (ref_records symbol (fst (split_frames session)) st)"
proof (induction session arbitrary: consumed st rule: frames_induct)
  case empty
  then show ?case by (simp add: split_frames_stop ref_loop.simps [of symbol "[]"])
next
  case (fault session e c)
  then show ?case by (simp add: ref_loop_stop [OF fault] split_frames_stop)
next
  case (frame session n)
  define tl where "tl = split_frames (drop (2 + n) session)"
  have offset: "consumed + (2 + n) + (length (drop (2 + n) session) - length (snd tl)) =
      consumed + (length session - length (snd tl))"
    unfolding tl_def by (rule split_frames_offset [OF frame(2,3) refl])
  note IH = frame(4) [of "consumed + (2 + n)", folded tl_def, unfolded offset]
  have split: "split_frames session = (subspan session 2 n # fst tl, snd tl)"
    unfolding tl_def by (rule split_frames_step [OF frame(1-3)])
  show ?case
    by (simp only: ref_loop_step [OF frame(1-3)] IH split fst_conv snd_conv ref_records.simps)
      (simp split: option.split)
qed

section \<open>What the report counts\<close>

lemma mirrors_order_count:
  assumes "mirrors_orders rb ab"
  shows "length (rb_orders rb) = length ab"
proof -
  have "map_of (rb_orders rb) k = None \<longleftrightarrow> spec_at ab k = None" for k
    using assms by (metis mirrors_orders_def option.rel_distinct not_None_eq)
  moreover have "spec_at ab k = None \<longleftrightarrow> k \<notin> (\<lambda>x. uint (so_reference x)) ` set ab" for k
    by (auto simp: spec_at_def find_None_iff)
  ultimately have keys: "fst ` set (rb_orders rb) = set (map (\<lambda>x. uint (so_reference x)) ab)"
    by (simp add: map_of_eq_None_iff) blast
  have "distinct (map (\<lambda>x. uint (so_reference x)) ab)"
    using assms by (simp add: mirrors_orders_def distinct_map inj_on_def)
  with keys show ?thesis
    using assms distinct_card [of "map fst (rb_orders rb)"]
      distinct_card [of "map (\<lambda>x. uint (so_reference x)) ab"]
    by (simp add: mirrors_orders_def)
qed

lemma mirrors_prices:
  assumes "mirrors_orders rb ab"
  shows "fst ` set (ref_flag_levels buy rb) = uint ` spec_prices (side_of_flag buy) ab"
proof (intro set_eqI iffI)
  fix k
  assume "k \<in> fst ` set (ref_flag_levels buy rb)"
  then have "map_of (ref_flag_levels buy rb) k \<noteq> None" by (simp add: map_of_eq_None_iff)
  then have "depth_of (side_of_flag buy) k ab \<noteq> 0"
    using assms by (auto simp: mirrors_orders_def Let_def)
  then have "\<exists>x \<in> set ab. so_side x = side_of_flag buy \<and> uint (so_price x) = k"
    using depth_of_zero [of ab "side_of_flag buy" k] by blast
  then show "k \<in> uint ` spec_prices (side_of_flag buy) ab" by (auto simp: spec_prices_def)
next
  fix k
  assume "k \<in> uint ` spec_prices (side_of_flag buy) ab"
  then obtain x where x: "x \<in> set ab" "so_side x = side_of_flag buy" "k = uint (so_price x)"
    by (auto simp: spec_prices_def)
  then have "0 < depth_of (side_of_flag buy) k ab"
    using depth_of_pos [OF x(1)] assms by (simp add: mirrors_orders_def)
  then have "map_of (ref_flag_levels buy rb) k \<noteq> None"
    using assms by (simp add: mirrors_orders_def Let_def)
  then show "k \<in> fst ` set (ref_flag_levels buy rb)" by (simp add: map_of_eq_None_iff)
qed

lemma mirrors_level_count:
  assumes "mirrors_orders rb ab"
  shows "length (ref_flag_levels buy rb) = card (spec_prices (side_of_flag buy) ab)"
proof -
  have "distinct (map fst (ref_flag_levels buy rb))" using assms by (simp add: mirrors_orders_def)
  then have "length (ref_flag_levels buy rb) = card (fst ` set (ref_flag_levels buy rb))"
    using distinct_card [of "map fst (ref_flag_levels buy rb)"] by simp
  also have "\<dots> = card (spec_prices (side_of_flag buy) ab)"
    unfolding mirrors_prices [OF assms] by (intro card_image) (simp add: inj_on_def)
  finally show ?thesis .
qed

lemma mono_uint: "mono (uint :: 'a::len word \<Rightarrow> int)"
  by (simp add: mono_def word_le_def)

text \<open>The best levels, as unbounded integers.\<close>

definition exact_level :: "side \<Rightarrow> spec_order list \<Rightarrow> book_level \<Rightarrow> int \<times> int" where
  "exact_level sd ab bl = (uint (bl_price bl), int (spec_depth sd (bl_price bl) ab))"

lemma mirrors_depth:
  assumes "mirrors_orders rb ab" and "p \<in> spec_prices (side_of_flag buy) ab"
  shows "map_of (ref_flag_levels buy rb) (uint p) = Some (int (spec_depth (side_of_flag buy) p ab))"
proof -
  have "uint p \<in> fst ` set (ref_flag_levels buy rb)"
    unfolding mirrors_prices [OF assms(1)] using assms(2) by simp
  then have "map_of (ref_flag_levels buy rb) (uint p) \<noteq> None" by (simp add: map_of_eq_None_iff)
  then show ?thesis
    using assms(1) by (auto simp: mirrors_orders_def Let_def depth_of_spec_depth split: if_splits)
qed

lemma mirrors_empty:
  assumes "mirrors_orders rb ab"
  shows "ref_flag_levels buy rb = [] \<longleftrightarrow> spec_prices (side_of_flag buy) ab = {}"
  using mirrors_prices [OF assms, of buy] by (metis image_is_empty set_empty)

lemma mirrors_best_exact:
  assumes "mirrors_orders rb ab"
  shows "ref_best CHR ''B'' rb = map_option (exact_level Buy ab) (spec_best_bid ab)"
    and "ref_best CHR ''S'' rb = map_option (exact_level Sell ab) (spec_best_ask ab)"
proof -
  note bids = mirrors_prices [OF assms, of True] mirrors_empty [OF assms, of True]
    mirrors_depth [OF assms, of _ True]
  note asks = mirrors_prices [OF assms, of False] mirrors_empty [OF assms, of False]
    mirrors_depth [OF assms, of _ False]
  have max: "Max (uint ` A) = uint (Max A)" "Min (uint ` A) = uint (Min A)"
    if "A \<noteq> {}" "finite A" for A :: "u32 set"
    using that mono_Max_commute [OF mono_uint, of A] mono_Min_commute [OF mono_uint, of A] by simp_all
  show "ref_best CHR ''B'' rb = map_option (exact_level Buy ab) (spec_best_bid ab)"
    using bids max [of "spec_prices Buy ab"] Max_in [of "spec_prices Buy ab"]
    by (auto simp: ref_best_def ref_levels_flag spec_best_bid_def exact_level_def side_of_flag_def Let_def)
  show "ref_best CHR ''S'' rb = map_option (exact_level Sell ab) (spec_best_ask ab)"
    using asks max [of "spec_prices Sell ab"] Min_in [of "spec_prices Sell ab"]
    by (auto simp: ref_best_def ref_levels_flag spec_best_ask_def exact_level_def side_of_flag_def Let_def)
qed

end
