(* ===== verification/Reference_Errors.thy ===== *)
theory Reference_Errors
  imports Reference_Book Text_Output
begin

text \<open>
  What the Python tools write on the standard error: the text of the error that stopped the
  loop, with Python's own rendering of the type byte (\<open>repr\<close> of a \<open>bytes\<close> object). The offset
  in it is the one the C++ framer reports.
\<close>

section \<open>The text of an error\<close>

text \<open>\<open>repr\<close>: printable ASCII as it is, the other bytes escaped, in quotes that do not occur inside.\<close>

definition hex_digit :: "nat \<Rightarrow> char" where
  "hex_digit n = ''0123456789abcdef'' ! n"

definition byte_repr :: "char \<Rightarrow> byte \<Rightarrow> string" where
  "byte_repr quote x =
     (if char_of_byte x = quote \<or> x = 0x5C then [CHR 0x5C, char_of_byte x]
      else if x = 0x09 then [CHR 0x5C, CHR ''t'']
      else if x = 0x0A then [CHR 0x5C, CHR ''n'']
      else if x = 0x0D then [CHR 0x5C, CHR ''r'']
      else if x < 0x20 \<or> 0x7F \<le> x
      then [CHR 0x5C, CHR ''x'', hex_digit (unat x div 16), hex_digit (unat x mod 16)]
      else [char_of_byte x])"

definition bytes_repr :: "byte list \<Rightarrow> string" where
  "bytes_repr xs =
     (let quote = (if 0x27 \<in> set xs \<and> 0x22 \<notin> set xs then CHR 0x22 else CHR 0x27)
      in CHR ''b'' # quote # concat (map (byte_repr quote) xs) @ [quote])"

fun ref_error_text :: "ref_error \<Rightarrow> string" where
  "ref_error_text (RefTruncatedPrefix consumed) =
     ''truncated length prefix at offset '' @ decimal consumed"
| "ref_error_text (RefTruncatedRecord consumed) =
     ''truncated record at offset '' @ decimal consumed"
| "ref_error_text (RefUnknownType message_type consumed) =
     ''unknown type '' @ bytes_repr message_type @ '' at offset '' @ decimal consumed"
| "ref_error_text (RefWrongLength declared message_type consumed expected) =
     ''length '' @ decimal declared @ '' for type '' @ map char_of_byte message_type @
     '' at offset '' @ decimal consumed @ '', spec says '' @ decimal expected"

definition ref_stopped_text :: "ref_error option \<Rightarrow> string" where
  "ref_stopped_text error =
     (case error of None \<Rightarrow> [] | Some e \<Rightarrow> ''stopped: '' @ ref_error_text e @ newline)"

lemma ref_stopped_text_empty [simp]: "ref_stopped_text error = [] \<longleftrightarrow> error = None"
  by (simp add: ref_stopped_text_def split: option.split)

section \<open>The offset in it\<close>

text \<open>An error of a Python tool that says what the outcome of the framer says: none, or its offset.\<close>

definition same_stop :: "frame_outcome \<Rightarrow> ref_error option \<Rightarrow> bool" where
  "same_stop out error \<longleftrightarrow>
     map_option ref_error_offset error = (if complete out then None else Some (error_offset out))"

lemma same_stop_None: "same_stop out error \<Longrightarrow> error = None \<longleftrightarrow> complete out"
  by (auto simp: same_stop_def split: if_splits)

text \<open>The error of a session that is read to its first fault.\<close>

definition session_error :: "byte list \<Rightarrow> ref_error option" where
  "session_error file =
     (let rest = snd (split_frames file) in
      if rest = [] then None
      else map_option (\<lambda>(e, c). ref_error_of e rest (length file - length rest)) (head_fault rest))"

lemma same_stop_session: "same_stop (session_outcome file) (session_error file)"
  using session_records_sound(3) [of "file"]
  by (auto simp: session_error_def same_stop_def complete_def session_outcome_def split_outcome_def Let_def
      split: prod.split option.split)

section \<open>A session of the reference book\<close>

lemma ref_replay_split:
  "ref_replay symbol file =
     map_option (\<lambda>st. (st, session_error file))
       (ref_records symbol (session_records file) (ref_init, False))"
  by (simp add: ref_replay_def ref_loop_split session_records_def session_error_def Let_def)

lemma ref_replay_mirrors:
  assumes "session_messages file = pre @ StockDirectory d # rest"
    and "\<forall>m \<in> set pre. waiting symbol m"
    and "announces symbol (StockDirectory d)" and "stock_locate (sd_header d) = loc"
    and "spec_admits_all loc spec_initial rest"
    and "\<forall>m \<in> set rest. funded loc m" and "trim symbol = symbol"
  shows "\<exists>rb error. ref_replay symbol file = Some ((rb, True), error) \<and>
    same_stop (session_outcome file) error \<and>
    ref_records symbol (session_records file) (ref_init, False) = Some (rb, True) \<and>
    mirrors loc rb (spec_run loc rest spec_initial)"
proof -
  obtain rs r rs' where split: "session_records file = rs @ r # rs'" "map decoded rs = pre"
    "decoded r = StockDirectory d" "map decoded rs' = rest"
    using assms(1) by (auto simp: session_messages_def map_eq_append_conv map_eq_Cons_conv)
  have valid: "list_all valid_record rs" "valid_record r" "list_all valid_record rs'"
    using session_records_sound(2) [of "file"] by (simp_all add: split(1))
  have waits: "ref_records symbol rs (ref_init, False) = Some (ref_init, False)"
    by (rule ref_records_wait [OF valid(1) assms(7)]) (use assms(2) split(2) in \<open>auto simp: waiting_def\<close>)
  note found = ref_record_announced [OF valid(2) assms(7) split(3) assms(3,4)]
  obtain rb where run: "ref_records symbol rs' (ref_init\<lparr>rb_locate := Some (uint loc)\<rparr>, True) = Some (rb, True)"
    and rb: "mirrors loc rb (spec_run loc rest spec_initial)"
    using ref_records_mirrors [OF valid(3) mirrors_initial, of loc symbol] assms(5,6)
    by (auto simp: split(4))
  have append: "ref_records symbol (xs @ ys) st =
      Option.bind (ref_records symbol xs st) (ref_records symbol ys)" for xs ys st
    by (induction xs arbitrary: st) (simp_all split: option.split)
  have records: "ref_records symbol (fst (split_frames file)) (ref_init, False) = Some (rb, True)"
    using split(1) by (simp add: session_records_def append waits found run)
  then show ?thesis
    using rb same_stop_session [of "file"]
    by (simp add: ref_replay_split session_records_def)
qed

end
