(* ===== verification/Reference_Report.thy ===== *)
theory Reference_Report
  imports Reference_Errors Replay_Report
begin

text \<open>
  What \<open>main\<close> of \<open>tools/reference_book.py\<close> prints. Its integers are
  unbounded, those of the other tool wrap; the lemmas bound them by the size of the session,
  so that on admitted feeds whose orders carry shares the two texts are the same, character by
  character, and the error it writes names the offset of the framer.
\<close>

section \<open>The text\<close>

definition int_text :: "int \<Rightarrow> string" where
  "int_text n = (if n < 0 then ''-'' @ decimal (nat (- n)) else decimal (nat n))"

definition ref_line :: "string \<Rightarrow> string \<Rightarrow> string" where
  "ref_line label value = left_aligned 16 label @ value @ newline"

definition ref_level_text :: "(int \<times> int) option \<Rightarrow> string" where
  "ref_level_text best =
     (case best of
        None \<Rightarrow> ''none''
      | Some (price, shares) \<Rightarrow> int_text price @ '' ('' @ int_text shares @ '' shares)'')"

definition ref_text :: "string \<Rightarrow> ref_book \<Rightarrow> string" where
  "ref_text symbol bk =
     ref_line ''symbol'' symbol @
     ref_line ''locate'' (case rb_locate bk of None \<Rightarrow> ''None'' | Some n \<Rightarrow> int_text n) @
     ref_line ''adds'' (int_text (rb_adds bk)) @
     ref_line ''executions'' (int_text (rb_executions bk)) @
     ref_line ''cancels'' (int_text (rb_cancels bk)) @
     ref_line ''deletes'' (int_text (rb_deletes bk)) @
     ref_line ''replaces'' (int_text (rb_replaces bk)) @
     ref_line ''trades'' (int_text (rb_trades bk)) @
     ref_line ''resting orders'' (int_text (int (length (rb_orders bk)))) @
     ref_line ''bid levels'' (int_text (int (length (rb_bid_levels bk)))) @
     ref_line ''ask levels'' (int_text (int (length (rb_ask_levels bk)))) @
     ref_line ''best bid'' (ref_level_text (ref_best CHR ''B'' bk)) @
     ref_line ''best ask'' (ref_level_text (ref_best CHR ''S'' bk))"

text \<open>The exit code, the standard output and the standard error; \<open>None\<close> is an uncaught exception.\<close>

definition ref_program :: "string \<Rightarrow> byte list \<Rightarrow> (int \<times> string \<times> string) option" where
  "ref_program symbol session =
     map_option (\<lambda>((bk, resolved), error).
         if \<not> resolved
         then (1, [], ''reference_book: '' @ symbol @
           '' was never announced in a Stock Directory message'' @ newline)
         else (if error = None then 0 else 1, ref_text symbol bk, ref_stopped_text error))
       (ref_replay symbol session)"

lemma int_text_int [simp]: "int_text (int n) = decimal n"
  by (simp add: int_text_def)

lemma int_text_uint [simp]: "int_text (uint w) = decimal (unat w)"
  by (simp add: int_text_def unat_eq_nat_uint flip: nat_uint_eq)

lemma ref_program_unresolved:
  assumes "\<forall>m \<in> set (session_messages file). \<not> announces symbol m" and "trim symbol = symbol"
  shows "ref_program symbol file = Some (1, [], ''reference_book: '' @ symbol @
    '' was never announced in a Stock Directory message'' @ newline)"
proof -
  have "ref_records symbol (session_records file) (ref_init, False) = Some (ref_init, False)"
    by (rule ref_records_wait [OF session_records_sound(2) assms(2)])
      (use assms(1) in \<open>auto simp: session_messages_def\<close>)
  then show ?thesis by (simp add: ref_program_def ref_replay_split)
qed

section \<open>No counter exceeds the number of records\<close>

definition tallies_of :: "ref_book \<Rightarrow> int list" where
  "tallies_of rb = [rb_adds rb, rb_executions rb, rb_cancels rb, rb_deletes rb, rb_replaces rb, rb_trades rb]"

definition tallies_within :: "nat \<Rightarrow> ref_book \<Rightarrow> bool" where
  "tallies_within n rb \<longleftrightarrow> list_all (\<lambda>t. 0 \<le> t \<and> t \<le> int n) (tallies_of rb)"

lemma tallies_frame:
  "ref_frame rb' = ref_frame rb \<Longrightarrow> tallies_within n rb' = tallies_within n rb"
  using ref_frame_eq [of rb' rb] by (simp add: tallies_within_def tallies_of_def)

lemma tallies_weaken: "tallies_within n rb \<Longrightarrow> tallies_within (Suc n) rb"
  by (auto simp: tallies_within_def tallies_of_def)

lemma ref_frame_reduce:
  "ref_reduce_or_remove ref n remove_all rb = Some rb' \<Longrightarrow> ref_frame rb' = ref_frame rb"
  by (auto simp: ref_reduce_or_remove_def Let_def split: option.splits)

lemma tallies_step:
  assumes "tallies_within n rb"
  shows "tallies_within (Suc n) (rb\<lparr>rb_adds := rb_adds rb + 1\<rparr>)"
    and "tallies_within (Suc n) (rb\<lparr>rb_executions := rb_executions rb + 1\<rparr>)"
    and "tallies_within (Suc n) (rb\<lparr>rb_cancels := rb_cancels rb + 1\<rparr>)"
    and "tallies_within (Suc n) (rb\<lparr>rb_deletes := rb_deletes rb + 1\<rparr>)"
    and "tallies_within (Suc n) (rb\<lparr>rb_replaces := rb_replaces rb + 1\<rparr>)"
    and "tallies_within (Suc n) (rb\<lparr>rb_trades := rb_trades rb + 1\<rparr>)"
  using assms by (auto simp: tallies_within_def tallies_of_def)

lemma ref_apply_tallies:
  assumes "ref_apply r rb = Some rb'" and "tallies_within n rb"
  shows "tallies_within (Suc n) rb'"
proof -
  have reduced: "tallies_within n rb1" if "ref_reduce_or_remove ref k all rb = Some rb1" for ref k all rb1
    using tallies_frame [OF ref_frame_reduce [OF that]] assms(2) by simp
  have inserted: "tallies_within n (ref_insert ref c p k rb1) = tallies_within n rb1" for ref c p k rb1
    by (rule tallies_frame) simp
  note steps = tallies_step tallies_weaken reduced
  show ?thesis
    using assms inserted
    by (auto simp: ref_apply_def Let_def ref_add_def ref_execute_def ref_cancel_def ref_delete_def
        ref_replace_def split: if_splits option.splits intro!: tallies_step intro: reduced tallies_weaken)
qed

lemma ref_records_tallies:
  assumes "ref_records symbol rs (rb, resolved) = Some (rb', resolved')" and "tallies_within n rb"
  shows "tallies_within (n + length rs) rb'"
  using assms
proof (induction rs arbitrary: rb resolved n)
  case (Cons r rs)
  obtain rb1 res1 where first: "ref_record symbol r (rb, resolved) = Some (rb1, res1)"
    and rest: "ref_records symbol rs (rb1, res1) = Some (rb', resolved')"
    using Cons.prems(1) by (auto split: option.splits)
  have "tallies_within (Suc n) (rb\<lparr>rb_locate := l\<rparr>) = tallies_within (Suc n) rb" for l
    by (simp add: tallies_within_def tallies_of_def)
  then have "tallies_within (Suc n) rb1"
    using first Cons.prems(2) ref_apply_tallies [of r rb _ n] tallies_weaken [of n rb]
    by (auto simp: ref_record_def Let_def split: if_splits)
  from Cons.IH [OF rest this] show ?case by simp
qed simp


section \<open>The texts of both tools\<close>

lemma exact_word: "0 \<le> t \<Longrightarrow> t < 2 ^ 64 \<Longrightarrow> int_text t = decimal (unat (word_of_int t :: u64))"
  by (simp add: int_text_def unsigned_of_int take_bit_int_eq_self)

lemma tallies_text:
  assumes "same_tallies rb st" and "tallies_within n rb" and "n < 2 ^ 64"
  shows "int_text (rb_adds rb) = decimal (unat (adds st))"
    and "int_text (rb_executions rb) = decimal (unat (executions st))"
    and "int_text (rb_cancels rb) = decimal (unat (cancels st))"
    and "int_text (rb_deletes rb) = decimal (unat (deletes st))"
    and "int_text (rb_replaces rb) = decimal (unat (replaces st))"
    and "int_text (rb_trades rb) = decimal (unat (trades st))"
proof -
  have bound: "0 \<le> t \<and> t < 2 ^ 64" if "t \<in> set (tallies_of rb)" for t
  proof -
    have "0 \<le> t" "t \<le> int n" using assms(2) that by (auto simp: tallies_within_def list_all_iff)
    moreover have "int n < int (2 ^ 64)" using assms(3) by (simp only: of_nat_less_iff)
    then have "int n < 2 ^ 64" by simp
    ultimately show ?thesis by linarith
  qed
  have eq: "int_text t = decimal (unat w)"
    if "t \<in> set (tallies_of rb)" and "w = word_of_int t" for t and w :: u64
    using exact_word [of t] bound [OF that(1)] by (simp only: that(2))
  show "int_text (rb_adds rb) = decimal (unat (adds st))"
    "int_text (rb_executions rb) = decimal (unat (executions st))"
    "int_text (rb_cancels rb) = decimal (unat (cancels st))"
    "int_text (rb_deletes rb) = decimal (unat (deletes st))"
    "int_text (rb_replaces rb) = decimal (unat (replaces st))"
    "int_text (rb_trades rb) = decimal (unat (trades st))"
    by (rule eq; use assms(1) in \<open>simp add: same_tallies_def tallies_of_def\<close>)+
qed

lemma exact_level_text:
  assumes "length ab \<le> 2 ^ 32" and "bl_shares bl = of_nat (spec_depth sd (bl_price bl) ab)"
  shows "ref_level_text (Some (exact_level sd ab bl)) = level_text (Some bl)"
proof -
  have "spec_depth sd (bl_price bl) ab < 2 ^ LENGTH(64)"
    using spec_depth_bound [OF assms(1)] by simp
  then have "unat (bl_shares bl) = spec_depth sd (bl_price bl) ab"
    using assms(2) by (simp add: unsigned_of_nat take_bit_nat_eq_self)
  then show ?thesis by (simp add: ref_level_text_def level_text_def exact_level_def)
qed

lemma best_text:
  assumes "mirrors_orders rb ab" and "length ab \<le> 2 ^ 32"
  shows "ref_level_text (ref_best CHR ''B'' rb) = level_text (spec_best_bid ab)"
    and "ref_level_text (ref_best CHR ''S'' rb) = level_text (spec_best_ask ab)"
proof -
  have none: "ref_level_text None = level_text None"
    by (simp add: ref_level_text_def level_text_def)
  show "ref_level_text (ref_best CHR ''B'' rb) = level_text (spec_best_bid ab)"
    unfolding mirrors_best_exact(1) [OF assms(1)]
    using exact_level_text [OF assms(2), where sd = Buy] none
    by (auto simp: spec_best_bid_def Let_def)
  show "ref_level_text (ref_best CHR ''S'' rb) = level_text (spec_best_ask ab)"
    unfolding mirrors_best_exact(2) [OF assms(1)]
    using exact_level_text [OF assms(2), where sd = Sell] none
    by (auto simp: spec_best_ask_def Let_def)
qed

lemma ref_text_mirrors:
  assumes "mirrors loc rb s" and "tallies_within n rb" and "n < 2 ^ 64"
    and "length (sp_orders s) \<le> 2 ^ 32"
  shows "ref_text symbol rb @ stop_text (stopped_of outcome) = replay_text (spec_report symbol loc s outcome)"
proof -
  have orders: "mirrors_orders rb (sp_orders s)" and tallies: "same_tallies rb (sp_stats s)"
    and locate: "rb_locate rb = Some (uint loc)"
    using assms(1) by (simp_all add: mirrors_def)
  show ?thesis
    using mirrors_order_count [OF orders] mirrors_level_count [OF orders, of True]
      mirrors_level_count [OF orders, of False] best_text [OF orders assms(4)]
      tallies_text [OF tallies assms(2,3)]
    by (simp add: ref_text_def replay_text_def spec_report_def ref_line_def print_field_def locate
        ref_flag_levels_def side_of_flag_def)
qed

lemma ref_program_prints:
  assumes "session_messages file = pre @ StockDirectory d # rest"
    and "\<forall>m \<in> set pre. waiting symbol m"
    and "announces symbol (StockDirectory d)" and "stock_locate (sd_header d) = loc"
    and "spec_admits_all loc spec_initial rest"
    and "\<forall>m \<in> set rest. funded loc m" and "trim symbol = symbol"
    and "length (session_messages file) \<le> 2 ^ 32"
  shows "\<exists>out error. ref_program symbol file =
      Some (if complete (session_outcome file) then 0 else 1, out, ref_stopped_text error) \<and>
    same_stop (session_outcome file) error \<and>
    replay_text (spec_report symbol loc (spec_run loc rest spec_initial) (session_outcome file)) =
      out @ stop_text (stopped_of (session_outcome file))"
proof -
  obtain rb error where run: "ref_replay symbol file = Some ((rb, True), error)"
    "same_stop (session_outcome file) error"
    "ref_records symbol (session_records file) (ref_init, False) = Some (rb, True)"
    and rb: "mirrors loc rb (spec_run loc rest spec_initial)"
    using ref_replay_mirrors [OF assms(1-7)] by blast
  have "tallies_within 0 ref_init" by (simp add: tallies_within_def tallies_of_def ref_init_def)
  from ref_records_tallies [OF run(3) this]
  have few: "tallies_within (length (session_messages file)) rb" by (simp add: session_messages_def)
  have "length rest \<le> 2 ^ 32" using assms(1,8) by simp
  then have "length (sp_orders (spec_run loc rest spec_initial)) \<le> 2 ^ 32"
    using length_spec_run [of loc rest spec_initial] by (simp add: spec_initial_def)
  from ref_text_mirrors [OF rb few _ this] show ?thesis
    using run(1,2) same_stop_None [OF run(2)] assms(8) by (auto simp: ref_program_def)
qed

end
