(* ===== verification/Reference_Count.thy ===== *)
theory Reference_Count
  imports Reference_Errors Count_Report
begin

text \<open>
  \<open>tools/reference_count.py\<close>: the independent census that \<open>itch_count\<close> is checked against. Its
  \<open>Counter\<close> is an association list in order of first occurrence, its integers are unbounded,
  and \<open>--limit\<close> stops it early. The loop reads the session as \<open>reference_book.py\<close> does; its
  errors have the same four kinds. A Python string is the list of its code points, which are
  bytes here. The lemmas give the state of the tool from the records of the session.
\<close>

section \<open>The program\<close>

definition count_lengths :: "(char \<times> nat) list" where
  "count_lengths =
     [(CHR ''S'', 12), (CHR ''R'', 39), (CHR ''H'', 25), (CHR ''Y'', 20), (CHR ''L'', 26),
      (CHR ''V'', 35), (CHR ''W'', 12),
      (CHR ''K'', 28), (CHR ''J'', 35), (CHR ''h'', 21), (CHR ''A'', 36), (CHR ''F'', 40),
      (CHR ''E'', 31), (CHR ''C'', 36),
      (CHR ''X'', 23), (CHR ''D'', 19), (CHR ''U'', 35), (CHR ''P'', 44), (CHR ''Q'', 40),
      (CHR ''B'', 19), (CHR ''I'', 50),
      (CHR ''N'', 20)]"

definition count_expected :: "byte list \<Rightarrow> nat option" where
  "count_expected record =
     (case record of [] \<Rightarrow> None | c # _ \<Rightarrow> map_of count_lengths (char_of_byte c))"

record count_state =
  rc_counts :: "(char \<times> nat) list"
  rc_events :: string
  rc_total :: nat
  rc_consumed :: nat

definition count_init :: count_state where
  "count_init = \<lparr>rc_counts = [], rc_events = [], rc_total = 0, rc_consumed = 0\<rparr>"

definition counter_get :: "char \<Rightarrow> (char \<times> nat) list \<Rightarrow> nat" where
  "counter_get ty counter = (case map_of counter ty of None \<Rightarrow> 0 | Some n \<Rightarrow> n)"

definition count_record :: "byte list \<Rightarrow> count_state \<Rightarrow> count_state" where
  "count_record record st =
     (let ty = char_of_byte (record ! 0);
          st1 = st\<lparr>rc_counts := AList.update ty (counter_get ty (rc_counts st) + 1) (rc_counts st)\<rparr>;
          st2 = (if ty = CHR ''S''
                 then st1\<lparr>rc_events := rc_events st1 @ [char_of_byte (record ! 11)]\<rparr> else st1)
      in st2\<lparr>rc_total := rc_total st2 + 1, rc_consumed := rc_consumed st2 + (2 + length record)\<rparr>)"

definition limit_reached :: "int option \<Rightarrow> count_state \<Rightarrow> bool" where
  "limit_reached limit st = (case limit of None \<Rightarrow> False | Some n \<Rightarrow> n \<le> int (rc_total st))"

function count_loop ::
  "int option \<Rightarrow> byte list \<Rightarrow> count_state \<Rightarrow> count_state \<times> ref_error option" where
  "count_loop limit session st =
     (let prefix = take 2 session in
      if length prefix = 0 then (st, None)
      else if length prefix < 2 then (st, Some (RefTruncatedPrefix (rc_consumed st)))
      else
        let declared = be_value prefix;
            record = take declared (drop 2 session);
            message_type = take 1 record
        in if length record < declared then (st, Some (RefTruncatedRecord (rc_consumed st)))
           else (case count_expected record of
             None \<Rightarrow> (st, Some (RefUnknownType message_type (rc_consumed st)))
           | Some expected \<Rightarrow>
               if expected \<noteq> declared then (st, Some (RefWrongLength declared message_type (rc_consumed st) expected))
               else
                 let st' = count_record record st
                 in if limit_reached limit st' then (st', None)
                    else count_loop limit (drop (2 + declared) session) st'))"
  by pat_completeness auto
termination
  by (relation "measure (\<lambda>(_, session, _). length session)") auto

declare count_loop.simps [simp del]

definition ref_census :: "int option \<Rightarrow> byte list \<Rightarrow> count_state \<times> ref_error option" where
  "ref_census limit session = count_loop limit session count_init"

text \<open>\<open>sorted(counts.items(), key=lambda item: -item[1])\<close>, which keeps the order of equal counts.\<close>

definition ref_rows :: "count_state \<Rightarrow> (char \<times> nat) list" where
  "ref_rows st = sort_key (\<lambda>item. - int (snd item)) (rc_counts st)"

definition ref_count_text :: "count_state \<Rightarrow> string" where
  "ref_count_text st =
     concat (map (\<lambda>(ty, n). ''  '' @ [ty] @ ''   '' @ right_aligned 14 (decimal n) @ newline)
       (ref_rows st)) @
     newline @ ''messages        '' @ decimal (rc_total st) @ newline @
     ''bytes consumed  '' @ decimal (rc_consumed st) @ newline @
     ''system events   '' @ rc_events st @ newline"

definition ref_count_program :: "int option \<Rightarrow> byte list \<Rightarrow> int \<times> string \<times> string" where
  "ref_count_program limit session =
     (case ref_census limit session of
        (st, error) \<Rightarrow> (if error = None then 0 else 1, ref_count_text st, ref_stopped_text error))"

section \<open>The loop over the records\<close>

lemma count_lengths_eq: "count_lengths = ref_lengths"
  by (simp only: count_lengths_def ref_lengths_def)

lemma count_expected_eq: "count_expected = ref_expected"
  by (intro ext) (simp only: count_expected_def ref_expected_def count_lengths_eq)

lemma count_loop_stop:
  assumes "session \<noteq> []" and "head_fault session = Some (e, c)"
  shows "count_loop limit session st = (st, Some (ref_error_of e session (rc_consumed st)))"
proof (cases "length session < 2")
  case True
  then show ?thesis
    using assms by (subst count_loop.simps) (auto simp: head_fault_def Let_def)
next
  case False
  then show ?thesis
    using assms ref_expected_head [of "be_value (take 2 session)" session]
      ref_type_head [of "be_value (take 2 session)" session]
    by (subst count_loop.simps)
      (auto simp: head_fault_def Let_def ref_lengths_spec count_expected_eq split: if_splits)
qed

text \<open>The four tables of message types define the same types.\<close>

lemma type_tables_agree:
  "(describe_type c \<noteq> [] \<longleftrightarrow> spec_message_length c \<noteq> 0) \<and>
   map_of ref_lengths c = (if spec_message_length c = 0 then None else Some (spec_size c)) \<and>
   map_of count_lengths c = (if spec_message_length c = 0 then None else Some (spec_size c))"
  using describe_type_iff ref_lengths_spec count_lengths_eq by simp

lemma count_loop_step:
  assumes "session \<noteq> []" and "head_fault session = None" and "n = be_value (take 2 session)"
  shows "count_loop limit session st =
    (let st' = count_record (subspan session 2 n) st
     in if limit_reached limit st' then (st', None)
        else count_loop limit (drop (2 + n) session) st')"
proof -
  note head = head_fault_None [OF assms(2,3)]
  have "take n (drop 2 session) = subspan session 2 n" by (simp add: subspan_def)
  moreover have "count_expected (subspan session 2 n) = Some n"
    using ref_expected_valid [OF head(3)] head(1) by (simp add: count_expected_eq)
  ultimately show ?thesis
    using assms(1) head(1,2) by (subst count_loop.simps) (simp add: Let_def flip: assms(3))
qed

text \<open>The records that a limit lets through: at least one, since it is tested after counting.\<close>

definition lets_through :: "int option \<Rightarrow> nat \<Rightarrow> byte list list \<Rightarrow> byte list list" where
  "lets_through limit t rs =
     (case limit of None \<Rightarrow> rs | Some n \<Rightarrow> take (nat (max 1 (n - int t))) rs)"

definition stopped_early :: "int option \<Rightarrow> nat \<Rightarrow> byte list list \<Rightarrow> bool" where
  "stopped_early limit t rs \<longleftrightarrow>
     (case limit of None \<Rightarrow> False | Some n \<Rightarrow> nat (max 1 (n - int t)) \<le> length rs)"

lemma limit_Nil [simp]: "lets_through limit t [] = []" "\<not> stopped_early limit t []"
  by (simp_all add: lets_through_def stopped_early_def split: option.split)

lemma limit_Cons:
  "limit_reached limit (count_record r st) \<Longrightarrow>
     lets_through limit (rc_total st) (r # rs) = [r] \<and> stopped_early limit (rc_total st) (r # rs)"
  "\<not> limit_reached limit (count_record r st) \<Longrightarrow>
     lets_through limit (rc_total st) (r # rs) = r # lets_through limit (rc_total (count_record r st)) rs \<and>
     stopped_early limit (rc_total st) (r # rs) = stopped_early limit (rc_total (count_record r st)) rs"
proof -
  have total: "rc_total (count_record r st) = Suc (rc_total st)"
    by (simp add: count_record_def Let_def)
  have step: "nat (max 1 (n - int t)) = (if n \<le> int (Suc t) then 1 else Suc (nat (max 1 (n - int (Suc t)))))"
    for n t by (simp add: max_def) linarith
  show "limit_reached limit (count_record r st) \<Longrightarrow>
     lets_through limit (rc_total st) (r # rs) = [r] \<and> stopped_early limit (rc_total st) (r # rs)"
    using step [of _ "rc_total st"]
    by (auto simp: limit_reached_def total lets_through_def stopped_early_def split: option.splits)
  show "\<not> limit_reached limit (count_record r st) \<Longrightarrow>
     lets_through limit (rc_total st) (r # rs) = r # lets_through limit (rc_total (count_record r st)) rs \<and>
     stopped_early limit (rc_total st) (r # rs) = stopped_early limit (rc_total (count_record r st)) rs"
    unfolding lets_through_def stopped_early_def total using step [of _ "rc_total st"]
    by (auto simp: limit_reached_def total split: option.splits)
qed

lemma count_loop_split:
  "count_loop limit session st =
     (fold count_record (lets_through limit (rc_total st) (fst (split_frames session))) st,
      if stopped_early limit (rc_total st) (fst (split_frames session)) \<or> snd (split_frames session) = []
      then None
      else map_option (\<lambda>(e, c). ref_error_of e (snd (split_frames session))
             (rc_consumed st + (length session - length (snd (split_frames session)))))
           (head_fault (snd (split_frames session))))"
proof (induction session arbitrary: st rule: frames_induct)
  case empty
  then show ?case by (simp add: split_frames_stop count_loop.simps [of limit "[]"])
next
  case (fault session e c)
  then show ?case by (simp add: count_loop_stop [OF fault] split_frames_stop)
next
  case (frame session n)
  define tl where "tl = split_frames (drop (2 + n) session)"
  define st' where "st' = count_record (subspan session 2 n) st"
  have "rc_consumed st' = rc_consumed st + (2 + n)"
    using head_fault_None(1) [OF frame(2,3)] by (simp add: st'_def count_record_def Let_def)
  then have offset: "rc_consumed st' + (length (drop (2 + n) session) - length (snd tl)) =
      rc_consumed st + (length session - length (snd tl))"
    unfolding tl_def by (rule split_frames_offset [OF frame(2,3)])
  note IH = frame(4) [of st', folded tl_def, unfolded offset]
  have split: "split_frames session = (subspan session 2 n # fst tl, snd tl)"
    unfolding tl_def by (rule split_frames_step [OF frame(1-3)])
  note step = count_loop_step [OF frame(1-3), of limit st, folded st'_def, unfolded Let_def]
  show ?case
    using limit_Cons [of limit "subspan session 2 n" st "fst tl"]
    unfolding step split IH by (cases "limit_reached limit st'") (simp_all add: st'_def [symmetric])
qed

section \<open>Counting the messages\<close>

lemma map_of_update: "map_of (AList.update k v xs) = (map_of xs)(k \<mapsto> v)"
  by (simp add: update_conv')

lemma decoded_type: "valid_record r \<Longrightarrow> msg_type (message_header (decoded r)) = record_type r"
  using valid_encode [OF wf_decoded, of r] by (simp add: encode_decoded)

lemma decoded_event:
  assumes "valid_record r"
  shows "event_code_of (decoded r) = (if record_type r = CHR ''S'' then [char_of_byte (r ! 11)] else [])"
  by (cases r rule: record_type_cases) (auto simp: decoded_def decoded_types_def system_event_at_def)

text \<open>The state stands for a list of messages that take up a number of bytes.\<close>

definition counts_messages :: "message list \<Rightarrow> nat \<Rightarrow> count_state \<Rightarrow> bool" where
  "counts_messages ms n st \<longleftrightarrow>
     rc_total st = length ms \<and> rc_consumed st = n \<and> rc_events st = concat (map event_code_of ms) \<and>
     (\<forall>ty. counter_get ty (rc_counts st) =
        length (filter (\<lambda>m. msg_type (message_header m) = ty) ms)) \<and>
     distinct (map fst (rc_counts st)) \<and> (\<forall>item \<in> set (rc_counts st). 0 < snd item)"

lemma counts_messages_init: "counts_messages [] 0 count_init"
  by (simp add: counts_messages_def count_init_def counter_get_def)

lemma positive_update:
  "0 < n \<Longrightarrow> \<forall>item \<in> set xs. 0 < snd item \<Longrightarrow> \<forall>item \<in> set (AList.update k n xs). 0 < snd item"
  for n :: nat
  by (induction xs) auto

lemma count_record_messages:
  assumes "counts_messages ms n st" and "valid_record r"
  shows "counts_messages (ms @ [decoded r]) (n + length (framed r)) (count_record r st)"
proof -
  have "length (framed r) = 2 + length r" by (simp add: framed_def Let_def)
  moreover have "counter_get ty (AList.update ty' (Suc k) counter) =
      (if ty = ty' then Suc k else counter_get ty counter)" for ty ty' k counter
    by (simp add: counter_get_def map_of_update)
  moreover have "\<forall>item \<in> set (AList.update k (Suc m) (rc_counts st)). 0 < snd item" for k m
    using assms(1) by (intro positive_update) (simp_all add: counts_messages_def)
  ultimately show ?thesis
    using assms
    by (simp add: counts_messages_def count_record_def Let_def record_head decoded_type decoded_event
        distinct_update)
qed

lemma count_fold:
  "counts_messages ms n st \<Longrightarrow> list_all valid_record rs \<Longrightarrow>
     counts_messages (ms @ map decoded rs) (n + length (concat (map framed rs)))
       (fold count_record rs st)"
proof (induction rs arbitrary: ms n st)
  case (Cons r rs)
  then have "counts_messages (ms @ [decoded r]) (n + length (framed r)) (count_record r st)"
    by (intro count_record_messages) simp_all
  from Cons.IH [OF this] Cons.prems(2) show ?case by (simp add: add.assoc)
qed simp

lemma ref_census_counts:
  shows "counts_messages (map decoded (lets_through limit 0 (session_records file)))
      (length (concat (map framed (lets_through limit 0 (session_records file)))))
      (fst (ref_census limit file))"
    and "\<not> stopped_early limit 0 (session_records file) \<Longrightarrow>
      same_stop (session_outcome file) (snd (ref_census limit file))"
proof -
  have valid: "list_all valid_record (lets_through limit 0 (session_records file))"
    using session_records_sound(2) [of "file"]
    by (auto simp: lets_through_def list_all_iff dest: in_set_takeD split: option.split)
  have split: "ref_census limit file =
      (fold count_record (lets_through limit 0 (session_records file)) count_init,
       if stopped_early limit 0 (session_records file) then None else session_error file)"
    by (simp add: ref_census_def count_loop_split session_records_def session_error_def Let_def)
      (simp add: count_init_def)
  show "counts_messages (map decoded (lets_through limit 0 (session_records file)))
      (length (concat (map framed (lets_through limit 0 (session_records file)))))
      (fst (ref_census limit file))"
    using count_fold [OF counts_messages_init valid] by (simp add: split)
  show "same_stop (session_outcome file) (snd (ref_census limit file))"
    if "\<not> stopped_early limit 0 (session_records file)"
    using that same_stop_session by (simp add: split)
qed

section \<open>The rows of both tools\<close>

definition plain_row :: "census_row \<Rightarrow> char \<times> nat" where
  "plain_row row = (fst row, unat (snd row))"

lemma mset_rows:
  assumes "counts_messages ms n st" and "length ms < 2 ^ 64"
  shows "mset (rc_counts st) = mset (map plain_row (present (census_of ms)))"
proof -
  have fst_plain: "fst \<circ> plain_row = fst" by (simp add: fun_eq_iff plain_row_def)
  have "distinct (map fst (map plain_row (present (census_of ms))))"
    using distinct_present by (simp add: fst_plain)
  then have "distinct (map plain_row (present (census_of ms)))" by (simp only: distinct_map)
  moreover have "distinct (rc_counts st)"
    using assms(1) by (simp add: counts_messages_def distinct_map)
  moreover have "set (rc_counts st) = set (map plain_row (present (census_of ms)))"
  proof (intro equalityI subsetI)
    fix item
    assume item: "item \<in> set (rc_counts st)"
    obtain ty k where "item = (ty, k)" by fastforce
    moreover have "counter_get ty (rc_counts st) = k"
      using assms(1) item calculation by (simp add: counts_messages_def counter_get_def)
    moreover have "0 < k" using assms(1) item calculation(1) by (auto simp: counts_messages_def)
    ultimately have "unat (census_count ty (census_of ms)) = k" "0 < census_count ty (census_of ms)"
      using assms(1) unat_census_count [OF assms(2), of ty]
      by (simp_all add: counts_messages_def word_less_nat_alt)
    then show "item \<in> set (map plain_row (present (census_of ms)))"
      using \<open>item = (ty, k)\<close> by (force simp: set_present plain_row_def)
  next
    fix item
    assume "item \<in> set (map plain_row (present (census_of ms)))"
    then obtain ty where ty: "item = (ty, unat (census_count ty (census_of ms)))"
      "0 < unat (census_count ty (census_of ms))"
      by (auto simp: set_present plain_row_def word_less_nat_alt)
    then have get: "counter_get ty (rc_counts st) = unat (census_count ty (census_of ms))"
      using assms(1) unat_census_count [OF assms(2), of ty] by (simp add: counts_messages_def)
    then have "map_of (rc_counts st) ty = Some (unat (census_count ty (census_of ms)))"
      using ty(2) by (auto simp: counter_get_def split: option.splits)
    then show "item \<in> set (rc_counts st)" using ty(1) by (simp add: map_of_SomeD)
  qed
  ultimately show ?thesis by (metis set_eq_iff_mset_eq_distinct)
qed

text \<open>With distinct counts there is one order only.\<close>

lemma sorted_rows_unique:
  assumes "sorted_wrt (\<lambda>x y. snd y \<le> snd x) xs" and "sorted_wrt (\<lambda>x y. snd y \<le> snd x) ys"
    and "mset xs = mset ys" and "distinct (map snd xs)"
  shows "xs = (ys :: (char \<times> nat) list)"
proof (rule map_sorted_distinct_set_unique [where f = "\<lambda>row. - int (snd row)"])
  have same: "set xs = set ys" using assms(3) by (rule mset_eq_setD)
  have "distinct (map snd ys)"
    using assms(4) mset_eq_imp_distinct_iff [of "map snd xs" "map snd ys"] assms(3) by simp
  then show "distinct (map (\<lambda>row. - int (snd row)) ys)" "distinct (map (\<lambda>row. - int (snd row)) xs)"
    using assms(4) by (auto simp: distinct_map inj_on_def)
  show "inj_on (\<lambda>row. - int (snd row)) (set xs \<union> set ys)"
    using assms(4) same by (auto simp: distinct_map inj_on_def)
  show "sorted (map (\<lambda>row. - int (snd row)) xs)" "sorted (map (\<lambda>row. - int (snd row)) ys)"
    using assms(1,2) by (simp_all add: sorted_map)
  show "set xs = set ys" by (rule same)
qed

lemma sorted_ref_rows: "sorted_wrt (\<lambda>x y. snd y \<le> snd x) (ref_rows st)"
  using sorted_sort_key [of "\<lambda>item. - int (snd item)" "rc_counts st"]
  by (simp add: ref_rows_def sorted_map)

lemma rows_agree:
  assumes "counts_messages ms n st" and "length ms < 2 ^ 64" and "sorts sort_rows"
  shows "mset (map plain_row (sort_rows (present (census_of ms)))) = mset (ref_rows st)"
    and "distinct (map snd (sort_rows (present (census_of ms)))) \<Longrightarrow>
      map plain_row (sort_rows (present (census_of ms))) = ref_rows st"
proof -
  let ?rows = "sort_rows (present (census_of ms))"
  show same: "mset (map plain_row ?rows) = mset (ref_rows st)"
    using mset_rows [OF assms(1,2)] by (simp add: sorted_rows(2) [OF assms(3)] ref_rows_def)
  assume d: "distinct (map snd ?rows)"
  have "map snd (map plain_row ?rows) = map unat (map snd ?rows)" by (simp add: plain_row_def)
  moreover have "distinct (map unat (map snd ?rows))"
    unfolding distinct_map [of unat] using d by (simp add: inj_on_def word_unat_eq_iff)
  ultimately have "distinct (map snd (map plain_row ?rows))" by (simp only:)
  moreover have "sorted_wrt (\<lambda>x y. snd y \<le> snd x) (map plain_row ?rows)"
    using sorted_rows(3) [OF assms(3)] by (simp add: sorted_wrt_map plain_row_def word_le_nat_alt)
  ultimately show "map plain_row ?rows = ref_rows st"
    using sorted_rows_unique [OF _ sorted_ref_rows same] by blast
qed

text \<open>
  What \<open>--limit\<close> does: the tool stops after N messages, but it looks at the limit only after
  counting one, so a limit of 0 (or below) still counts the first message.
\<close>

lemma limit_counts_at_least_one:
  "rc_total (fst (ref_census (Some n) file)) = min (nat (max 1 n)) (length (session_messages file))"
  using ref_census_counts(1) [of "Some n" "file"]
  by (simp add: counts_messages_def lets_through_def session_messages_def min.commute)

end
