(* ===== verification/Mapped_File.thy ===== *)
theory Mapped_File
  imports Itch_Prelude "HOL-Library.Multiset"
begin

text \<open>
  \<open>include/itch/mapped_file.hpp\<close> and \<open>src/mapped_file.cpp\<close>: ownership of the file
  descriptor and of the mapping. The operating system is a parameter: the record \<open>os\<close>
  holds the results of \<open>open\<close>, \<open>fstat\<close> and \<open>mmap\<close>. The kernel's side is the multiset of
  open descriptors and the multiset of live mappings, each an address with its size.

  The live objects of the class are a list; a moved-from object stays in it until its
  destructor runs. Unmapping what is not mapped, and using an object that does not exist,
  is undefined behaviour. \<open>madvise\<close> is advisory and changes neither multiset.
\<close>

section \<open>The kernel's side\<close>

type_synonym errno = nat
type_synonym address = nat

record os =
  os_open :: "string \<Rightarrow> errno + int"
  os_fstat :: "int \<Rightarrow> errno + int"
  os_mmap :: "int \<Rightarrow> nat \<Rightarrow> errno + address"

record kernel =
  open_fds :: "int multiset"
  mappings :: "(address \<times> nat) multiset"

definition sys_close :: "int \<Rightarrow> kernel \<Rightarrow> kernel" where
  "sys_close fd k = k\<lparr>open_fds := open_fds k - {#fd#}\<rparr>"

definition sys_munmap :: "address \<Rightarrow> nat \<Rightarrow> kernel \<Rightarrow> kernel run" where
  "sys_munmap a mapped_size k =
     (if (a, mapped_size) \<in># mappings k then Inr (k\<lparr>mappings := mappings k - {#(a, mapped_size)#}\<rparr>)
      else Inl UndefinedBehaviour)"

section \<open>The class\<close>

record mapped_file =
  mf_data :: "address option"
  mf_size :: nat

datatype file_error = SystemError errno string | RuntimeError string

definition empty_file :: mapped_file where
  "empty_file = \<lparr>mf_data = None, mf_size = 0\<rparr>"

text \<open>The constructor: the exception thrown or the object, and the kernel after it.\<close>

definition open_mapped ::
  "os \<Rightarrow> string \<Rightarrow> kernel \<Rightarrow> (file_error + mapped_file) \<times> kernel" where
  "open_mapped s path k =
     (case os_open s path of
        Inl e \<Rightarrow> (Inl (SystemError e (''open '' @ path)), k)
      | Inr fd \<Rightarrow>
          let k1 = k\<lparr>open_fds := add_mset fd (open_fds k)\<rparr> in
          (case os_fstat s fd of
             Inl failure \<Rightarrow> (Inl (SystemError failure (''fstat '' @ path)), sys_close fd k1)
           | Inr st_size \<Rightarrow>
               if st_size = 0 then (Inl (RuntimeError (path @ '' is empty'')), sys_close fd k1)
               else
                 let mapped_size = unat (word_of_int st_size :: u64) in
                 (case os_mmap s fd mapped_size of
                    Inl mmap_failure \<Rightarrow>
                      (Inl (SystemError mmap_failure (''mmap '' @ path)), sys_close fd k1)
                  | Inr mapping \<Rightarrow>
                      (Inr \<lparr>mf_data = Some mapping, mf_size = mapped_size\<rparr>,
                       sys_close fd
                         (k1\<lparr>mappings := add_mset (mapping, mapped_size) (mappings k1)\<rparr>)))))"

text \<open>The body of the destructor, which is also how an assignment drops its old mapping.\<close>

definition release :: "mapped_file \<Rightarrow> kernel \<Rightarrow> kernel run" where
  "release mf k =
     (case mf_data mf of None \<Rightarrow> Inr k | Some a \<Rightarrow> sys_munmap a (mf_size mf) k)"

text \<open>
  The span of the object, with the contents of mapped memory as a parameter: the kernel's
  view of the file's bytes.
\<close>

record machine = os +
  os_bytes :: "address \<Rightarrow> nat \<Rightarrow> byte list"
  os_what :: "errno \<Rightarrow> string \<Rightarrow> string"

definition mapped_bytes :: "machine \<Rightarrow> mapped_file \<Rightarrow> byte list" where
  "mapped_bytes s mf = (case mf_data mf of None \<Rightarrow> [] | Some a \<Rightarrow> os_bytes s a (mf_size mf))"

definition error_what :: "machine \<Rightarrow> file_error \<Rightarrow> string" where
  "error_what s e =
     (case e of SystemError n words \<Rightarrow> os_what s n words | RuntimeError words \<Rightarrow> words)"

section \<open>Objects and operations on them\<close>

record world =
  objects :: "mapped_file list"
  kernel_of :: kernel

datatype file_op = Construct string | MoveConstruct nat | MoveAssign nat nat | Destroy nat

definition construct :: "os \<Rightarrow> string \<Rightarrow> world \<Rightarrow> world" where
  "construct s path w =
     (case open_mapped s path (kernel_of w) of
        (Inl e, k) \<Rightarrow> w\<lparr>kernel_of := k\<rparr>
      | (Inr mf, k) \<Rightarrow> w\<lparr>objects := objects w @ [mf], kernel_of := k\<rparr>)"

definition move_construct :: "nat \<Rightarrow> world \<Rightarrow> world" where
  "move_construct other w =
     w\<lparr>objects := (objects w)[other := empty_file] @ [objects w ! other]\<rparr>"

definition move_assign :: "nat \<Rightarrow> nat \<Rightarrow> world \<Rightarrow> world run" where
  "move_assign this other w =
     (if this \<noteq> other then
        bind_run (release (objects w ! this) (kernel_of w)) (\<lambda>k.
          Inr (w\<lparr>objects := (objects w)[this := objects w ! other, other := empty_file],
                 kernel_of := k\<rparr>))
      else Inr w)"

definition destroy :: "nat \<Rightarrow> world \<Rightarrow> world run" where
  "destroy this w =
     bind_run (release (objects w ! this) (kernel_of w)) (\<lambda>k.
       Inr (w\<lparr>objects := take this (objects w) @ drop (Suc this) (objects w), kernel_of := k\<rparr>))"

fun file_step :: "os \<Rightarrow> file_op \<Rightarrow> world \<Rightarrow> world run" where
  "file_step s (Construct path) w = Inr (construct s path w)"
| "file_step s (MoveConstruct j) w =
     bind_run (require (j < length (objects w))) (\<lambda>_. Inr (move_construct j w))"
| "file_step s (MoveAssign i j) w =
     bind_run (require (i < length (objects w) \<and> j < length (objects w))) (\<lambda>_. move_assign i j w)"
| "file_step s (Destroy i) w =
     bind_run (require (i < length (objects w))) (\<lambda>_. destroy i w)"

section \<open>Ownership\<close>

definition owned_by :: "mapped_file \<Rightarrow> (address \<times> nat) multiset" where
  "owned_by mf = (case mf_data mf of None \<Rightarrow> {#} | Some a \<Rightarrow> {#(a, mf_size mf)#})"

definition owned :: "mapped_file list \<Rightarrow> (address \<times> nat) multiset" where
  "owned objs = sum_list (map owned_by objs)"

text \<open>Every live mapping has exactly one owner, and no descriptor stays open.\<close>

definition owns_all :: "int multiset \<Rightarrow> world \<Rightarrow> bool" where
  "owns_all fds w \<longleftrightarrow> mappings (kernel_of w) = owned (objects w) \<and> open_fds (kernel_of w) = fds"

lemma owned_simps [simp]:
  "owned [] = {#}" "owned (x # xs) = owned_by x + owned xs" "owned (xs @ ys) = owned xs + owned ys"
  "owned_by empty_file = {#}"
  by (simp_all add: owned_def owned_by_def empty_file_def)

lemma owned_split:
  assumes "i < length objs"
  shows "owned objs = owned_by (objs ! i) + owned (take i objs @ drop (Suc i) objs)"
proof -
  have "owned objs = owned (take i objs @ objs ! i # drop (Suc i) objs)"
    using assms by (simp add: id_take_nth_drop [symmetric])
  then show ?thesis by (simp add: ac_simps)
qed

lemma owned_update:
  "i < length objs \<Longrightarrow> owned_by (objs ! i) + owned (objs[i := x]) = owned objs + owned_by x"
proof (induction objs arbitrary: i)
  case (Cons y objs)
  then show ?case by (cases i) (simp_all add: ac_simps)
qed simp

lemma release_owned:
  assumes "mappings k = owned_by mf + rest"
  shows "release mf k = Inr (k\<lparr>mappings := rest\<rparr>)"
proof (cases "mf_data mf")
  case None
  then show ?thesis using assms by (simp add: release_def owned_by_def)
next
  case (Some a)
  then show ?thesis using assms by (simp add: release_def owned_by_def sys_munmap_def)
qed

text \<open>The constructor closes the descriptor on every path and maps only when it returns.\<close>

lemma open_mapped_kernel:
  assumes "open_mapped s path k = (res, k')"
  shows "open_fds k' = open_fds k"
    and "mappings k' = mappings k + (case res of Inl e \<Rightarrow> {#} | Inr mf \<Rightarrow> owned_by mf)"
  using assms
  by (auto simp: open_mapped_def sys_close_def owned_by_def Let_def split: sum.splits if_splits)

lemma construct_owns:
  assumes "owns_all fds w"
  shows "owns_all fds (construct s path w)"
proof -
  obtain res k' where opened: "open_mapped s path (kernel_of w) = (res, k')" by fastforce
  note k' = open_mapped_kernel [OF opened]
  show ?thesis
    using assms k' by (cases res) (simp_all add: owns_all_def construct_def opened)
qed

lemma move_construct_owns:
  assumes "owns_all fds w" and "j < length (objects w)"
  shows "owns_all fds (move_construct j w)"
  using assms owned_update [OF assms(2), of empty_file]
  by (simp add: owns_all_def move_construct_def add.commute)

lemma destroy_owns:
  assumes "owns_all fds w" and "i < length (objects w)"
  shows "\<exists>w'. destroy i w = Inr w' \<and> owns_all fds w'"
proof -
  have "mappings (kernel_of w) = owned_by (objects w ! i) +
      owned (take i (objects w) @ drop (Suc i) (objects w))"
    using assms(1) owned_split [OF assms(2)] by (simp only: owns_all_def)
  from release_owned [OF this] show ?thesis
    using assms(1) by (simp add: destroy_def owns_all_def)
qed

lemma move_assign_owns:
  assumes "owns_all fds w" and "i < length (objects w)" and "j < length (objects w)"
  shows "\<exists>w'. move_assign i j w = Inr w' \<and> owns_all fds w'"
proof (cases "i = j")
  case False
  let ?objs = "objects w"
  let ?final = "?objs[i := ?objs ! j, j := empty_file]"
  have one: "owned_by (?objs ! i) + owned (?objs[i := ?objs ! j]) = owned ?objs + owned_by (?objs ! j)"
    by (rule owned_update [OF assms(2)])
  have two: "owned_by (?objs ! j) + owned ?final = owned (?objs[i := ?objs ! j])"
    using owned_update [of j "?objs[i := ?objs ! j]" empty_file] assms(3) False by simp
  have "(owned_by (?objs ! i) + owned ?final) + owned_by (?objs ! j) = owned ?objs + owned_by (?objs ! j)"
    using one unfolding two [symmetric] by (simp only: ac_simps)
  then have "owned_by (?objs ! i) + owned ?final = owned ?objs" by (rule add_right_imp_eq)
  then have "mappings (kernel_of w) =
      owned_by (?objs ! i) + owned (?objs[i := ?objs ! j, j := empty_file])"
    using assms(1) by (simp add: owns_all_def)
  from release_owned [OF this] show ?thesis
    using assms(1) False by (simp add: move_assign_def owns_all_def)
qed (use assms(1) in \<open>simp add: move_assign_def\<close>)

text \<open>The operations on objects that exist.\<close>

fun op_live :: "world \<Rightarrow> file_op \<Rightarrow> bool" where
  "op_live w (Construct path) \<longleftrightarrow> True"
| "op_live w (MoveConstruct j) \<longleftrightarrow> j < length (objects w)"
| "op_live w (MoveAssign i j) \<longleftrightarrow> i < length (objects w) \<and> j < length (objects w)"
| "op_live w (Destroy i) \<longleftrightarrow> i < length (objects w)"

lemma file_step_owns:
  "owns_all fds w \<Longrightarrow> op_live w op' \<Longrightarrow> \<exists>w'. file_step s op' w = Inr w' \<and> owns_all fds w'"
  by (cases op')
    (simp_all add: construct_owns move_construct_owns move_assign_owns destroy_owns)

text \<open>
  Histories: \<open>reachable s w w'\<close> when the operations lead from one world to the other, each
  on live objects.
\<close>

inductive reachable :: "os \<Rightarrow> world \<Rightarrow> world \<Rightarrow> bool" for s :: os and w :: world where
  here: "reachable s w w"
| step: "reachable s w w1 \<Longrightarrow> op_live w1 op' \<Longrightarrow> file_step s op' w1 = Inr w2 \<Longrightarrow> reachable s w w2"

inductive_cases reachable_cases: "reachable s w w'"

lemma reachable_owns: "reachable s w w' \<Longrightarrow> owns_all fds w \<Longrightarrow> owns_all fds w'"
proof (induction rule: reachable.induct)
  case (step w1 op' w2)
  then show ?case using file_step_owns [of fds w1 op' s] by auto
qed

lemma owns_all_progress:
  "reachable s w w' \<Longrightarrow> owns_all fds w \<Longrightarrow> op_live w' op' \<Longrightarrow> \<exists>w''. file_step s op' w' = Inr w''"
  using reachable_owns file_step_owns by blast

end
