(* ===== verification/Tool_Processes.thy ===== *)
theory Tool_Processes
  imports Count_Report Replay_Report Mapped_File
begin

text \<open>
  The tools on the operating system of \<open>Mapped_File\<close>. Both construct one \<open>MappedFile\<close> in their
  \<open>try\<close> block and lose it at the end of the block, whether they return early or not. The
  lemmas say that a run is the program on the bytes of the file and leaves the kernel as it
  found it: no descriptor and no mapping remains.
\<close>

section \<open>A scope that owns a mapped file\<close>

definition with_mapped_file ::
  "machine \<Rightarrow> string \<Rightarrow> (byte list \<Rightarrow> 'a run) \<Rightarrow> kernel \<Rightarrow> ((string + 'a) \<times> kernel) run" where
  "with_mapped_file s path body k =
     (case open_mapped (os.truncate s) path k of
        (Inl e, k1) \<Rightarrow> Inr (Inl (error_what s e), k1)
      | (Inr mf, k1) \<Rightarrow>
          bind_run (body (mapped_bytes s mf)) (\<lambda>result.
          bind_run (release mf k1) (\<lambda>k2. Inr (Inr result, k2))))"

definition file_contents :: "machine \<Rightarrow> kernel \<Rightarrow> string \<Rightarrow> string + byte list" where
  "file_contents s k path =
     map_sum (error_what s) (mapped_bytes s) (fst (open_mapped (os.truncate s) path k))"

lemma with_mapped_file_kernel:
  "with_mapped_file s path body k =
     (case file_contents s k path of
        Inl what \<Rightarrow> Inr (Inl what, k)
      | Inr file \<Rightarrow> map_run (\<lambda>result. (Inr result, k)) (body file))"
proof -
  obtain res k1 where opened: "open_mapped (os.truncate s) path k = (res, k1)" by fastforce
  note k1 = open_mapped_kernel [OF opened]
  show ?thesis
  proof (cases res)
    case (Inl e)
    then have "k1 = k" using k1 by (intro kernel.equality) simp_all
    then show ?thesis by (simp add: with_mapped_file_def file_contents_def opened Inl)
  next
    case (Inr mf)
    have "mappings k1 = owned_by mf + mappings k" using k1(2) Inr by simp
    from release_owned [OF this]
    have "release mf k1 = Inr k" using k1(1) by simp
    then show ?thesis
      by (cases "body (mapped_bytes s mf)")
        (simp_all add: with_mapped_file_def file_contents_def opened Inr)
  qed
qed

section \<open>The tools\<close>

definition itch_count_process ::
  "build \<Rightarrow> (census_row list \<Rightarrow> census_row list) \<Rightarrow> machine \<Rightarrow> nat \<Rightarrow> string list \<Rightarrow> kernel \<Rightarrow>
   ((int \<times> string \<times> string) \<times> kernel) run" where
  "itch_count_process b sort_rows s elapsed_ns argv k =
     (case argv of
        [program, path] \<Rightarrow>
          map_run (\<lambda>(result, k1). (case result of Inl what \<Rightarrow> itch_count_failed what | Inr out \<Rightarrow> out, k1))
            (with_mapped_file s path (itch_count_session b sort_rows elapsed_ns path) k)
      | _ \<Rightarrow> Inr (itch_count_usage, k))"

definition book_replay_process ::
  "build \<Rightarrow> machine \<Rightarrow> string list \<Rightarrow> kernel \<Rightarrow> ((int \<times> string \<times> string) \<times> kernel) run" where
  "book_replay_process b s argv k =
     (case argv of
        [program, path, symbol] \<Rightarrow>
          map_run (\<lambda>(result, k1). (case result of Inl what \<Rightarrow> book_replay_failed what | Inr out \<Rightarrow> out, k1))
            (with_mapped_file s path (book_replay_session b symbol) k)
      | _ \<Rightarrow> Inr (book_replay_usage, k))"

lemma map_run_map_run: "map_run f (map_run g m) = map_run (\<lambda>x. f (g x)) m"
  by (cases m) simp_all

lemma itch_count_process_program:
  "itch_count_process b sort_rows s elapsed_ns argv k =
     map_run (\<lambda>out. (out, k)) (itch_count_program b sort_rows (file_contents s k) elapsed_ns argv)"
  by (simp add: itch_count_process_def itch_count_program_def with_mapped_file_kernel map_run_map_run
      split: list.split sum.split)

lemma book_replay_process_program:
  "book_replay_process b s argv k =
     map_run (\<lambda>out. (out, k)) (book_replay_program b (file_contents s k) argv)"
  by (simp add: book_replay_process_def book_replay_program_def with_mapped_file_kernel map_run_map_run
      split: list.split sum.split)

end
