(* ===== verification/Sample_Session.thy ===== *)
theory Sample_Session
  imports Book_Ledger Session_Totals Build_Agreement Book_Faults Framing_Resume Reference_Report Reference_Count Tool_Processes
begin

text \<open>
  A small session used as a concrete input: a system event, the directory message of one
  symbol, an order of another symbol, and orders, an execution, a cancel, a replacement, a
  trade and a deletion for the symbol itself. It is written to bytes by the encoder. The
  lemmas say what the hypotheses of the theorems ask of it.
\<close>

definition sample_header :: "char \<Rightarrow> u16 \<Rightarrow> u64 \<Rightarrow> message_header" where
  "sample_header ty loc ts =
     \<lparr>msg_type = ty, stock_locate = loc, tracking_number = 0, timestamp_ns = ts\<rparr>"

definition sample_event :: "u64 \<Rightarrow> char \<Rightarrow> message" where
  "sample_event ts code =
     SystemEvent \<lparr>se_header = sample_header CHR ''S'' 0 ts, se_event_code = code\<rparr>"

definition sample_directory :: "u16 \<Rightarrow> u64 \<Rightarrow> string \<Rightarrow> stock_directory" where
  "sample_directory loc ts symbol =
     \<lparr>sd_header = sample_header CHR ''R'' loc ts, sd_stock = symbol,
      sd_market_category = CHR ''Q'', sd_financial_status_indicator = CHR ''N'',
      sd_round_lot_size = 100, sd_round_lots_only = CHR ''N'', sd_issue_classification = CHR ''C'',
      sd_issue_sub_type = ''Z '', sd_authenticity = CHR ''P'',
      sd_short_sale_threshold_indicator = CHR ''N'', sd_ipo_flag = CHR ''N'',
      sd_luld_reference_price_tier = CHR ''1'', sd_etp_flag = CHR ''N'',
      sd_etp_leverage_factor = 0, sd_inverse_indicator = CHR ''N''\<rparr>"

definition sample_add :: "u16 \<Rightarrow> u64 \<Rightarrow> u64 \<Rightarrow> side \<Rightarrow> u32 \<Rightarrow> u32 \<Rightarrow> add_order" where
  "sample_add loc ts ref sd n p =
     \<lparr>ao_header = sample_header CHR ''A'' loc ts, ao_order_reference = ref, ao_side = sd,
      ao_shares = n, ao_stock = ''AAPL    '', ao_price = p\<rparr>"

definition sample_execute :: "u16 \<Rightarrow> u64 \<Rightarrow> u64 \<Rightarrow> u32 \<Rightarrow> order_executed" where
  "sample_execute loc ts ref n =
     \<lparr>oe_header = sample_header CHR ''E'' loc ts, oe_order_reference = ref,
      oe_executed_shares = n, oe_match_number = 9\<rparr>"

definition sample_cancel :: "u16 \<Rightarrow> u64 \<Rightarrow> u64 \<Rightarrow> u32 \<Rightarrow> order_cancel" where
  "sample_cancel loc ts ref n =
     \<lparr>oc_header = sample_header CHR ''X'' loc ts, oc_order_reference = ref, oc_cancelled_shares = n\<rparr>"

definition sample_delete :: "u16 \<Rightarrow> u64 \<Rightarrow> u64 \<Rightarrow> order_delete" where
  "sample_delete loc ts ref =
     \<lparr>od_header = sample_header CHR ''D'' loc ts, od_order_reference = ref\<rparr>"

definition sample_replace :: "u16 \<Rightarrow> u64 \<Rightarrow> u64 \<Rightarrow> u64 \<Rightarrow> u32 \<Rightarrow> u32 \<Rightarrow> order_replace" where
  "sample_replace loc ts original new n p =
     \<lparr>ore_header = sample_header CHR ''U'' loc ts, ore_original_order_reference = original,
      ore_new_order_reference = new, ore_shares = n, ore_price = p\<rparr>"

lemmas sample_defs =
  sample_header_def sample_event_def sample_directory_def sample_add_def sample_execute_def
  sample_cancel_def sample_delete_def sample_replace_def

definition sample_before :: "message list" where
  "sample_before = [sample_event 1 CHR ''O'', AddOrder (sample_add 7 2 90 Buy 1 1)]"

definition sample_after :: "message list" where
  "sample_after =
     [AddOrder (sample_add 5 4 1 Buy 100 10), AddOrder (sample_add 5 5 2 Buy 50 10),
      AddOrder (sample_add 7 6 91 Sell 5 3), AddOrder (sample_add 5 7 3 Sell 70 12),
      OrderExecuted (sample_execute 5 8 1 40), OrderCancel (sample_cancel 5 9 2 20),
      OrderReplace (sample_replace 5 10 1 4 60 11), OrderDelete (sample_delete 5 11 3)]"

definition sample_announcement :: stock_directory where
  "sample_announcement = sample_directory 5 3 ''AAPL    ''"

definition sample_messages :: "message list" where
  "sample_messages = sample_before @ StockDirectory sample_announcement # sample_after"

definition sample_file :: "byte list" where
  "sample_file = encode_session sample_messages"

lemmas sample_lists = sample_messages_def sample_before_def sample_after_def sample_announcement_def

lemma sample_wf: "list_all wf_message sample_messages"
  by (simp add: sample_lists sample_defs header_ok_def side_ok_def side_of_char_def)

lemma sample_sides: "list_all names_side sample_messages"
  by (simp add: sample_lists sample_defs)

lemma sample_session [simp]: "session_messages sample_file = sample_messages"
  by (simp add: sample_file_def session_messages_encode sample_wf)

lemma sample_asserts [simp]: "passes_asserts b sample_file"
  by (simp add: sample_file_def passes_asserts_encode [OF sample_wf] sample_sides)

lemma sample_outcome:
  "session_outcome sample_file =
     \<lparr>messages = 11, bytes_consumed = length sample_file, frame_error = None, error_offset = 0,
      error_type = CHR 0x00\<rparr>"
  by (simp add: session_outcome_def split_outcome_def sample_file_def
      split_frames_encode_session [OF sample_wf])
    (simp add: sample_lists)

lemma sample_length: "length sample_file = 361"
  by (simp add: sample_file_def encode_session_def sample_lists sample_defs framed_def Let_def)

lemma sample_trim: "trim ''AAPL    '' = ''AAPL''" "trim ''AAPL'' = ''AAPL''"
  by (simp_all add: trim_def)

lemma sample_waiting: "\<forall>m \<in> set sample_before. waiting ''AAPL'' m"
  by (simp add: sample_before_def sample_defs waiting_def concerns_def)

lemma sample_announces: "announces ''AAPL'' (StockDirectory sample_announcement)"
  by (simp add: sample_announcement_def sample_directory_def sample_trim)

lemma sample_locate: "stock_locate (sd_header sample_announcement) = 5"
  by (simp add: sample_announcement_def sample_directory_def sample_header_def)

lemma sample_funded: "\<forall>m \<in> set sample_after. funded 5 m"
  by (simp add: sample_after_def sample_defs funded_def)

lemma spec_prices_eval:
  "spec_prices sd [] = {}"
  "spec_prices sd (x # ab) =
     (if so_side x = sd then insert (so_price x) (spec_prices sd ab) else spec_prices sd ab)"
  by (auto simp: spec_prices_def)

lemmas sample_eval = sample_lists sample_defs spec_initial_def initial_stats_def spec_add_step_def
  spec_executed_step_def spec_cancel_step_def spec_delete_step_def spec_replace_step_def
  spec_side_def side_of_flag_def spec_add_def spec_fresh_def spec_may_reduce_def spec_edit_def
  left_after_def spec_find_def

lemma sample_admits: "spec_admits_all 5 spec_initial sample_after"
  by (simp add: sample_eval)

lemma sample_admits_all: "spec_admits_all 5 spec_initial sample_messages"
  by (simp add: sample_eval)

lemmas sample_ledger = sample_lists sample_defs orderly_def outstanding_def opened_def taken_def closed_def

text \<open>A machine on which every file is the sample.\<close>

definition sample_machine :: machine where
  "sample_machine =
     \<lparr>os_open = (\<lambda>_. Inr 3), os_fstat = (\<lambda>_. Inr 361), os_mmap = (\<lambda>_ _. Inr 4096),
      os_bytes = (\<lambda>_ _. sample_file), os_what = (\<lambda>_ words. words)\<rparr>"

lemma sample_contents: "file_contents sample_machine k path = Inr sample_file"
  by (simp add: file_contents_def sample_machine_def open_mapped_def mapped_bytes_def os.defs Let_def)

text \<open>The book after two buy orders at one price.\<close>

definition sample_orders :: "message list" where
  "sample_orders = [AddOrder (sample_add 5 4 1 Buy 100 10), AddOrder (sample_add 5 5 2 Buy 50 10)]"

definition sample_book :: order_book where
  "sample_book =
     \<lparr>locate = 5,
      bids = [(10, \<lparr>pl_orders = [(0, \<lparr>ro_order_reference = 1, ro_shares = 100\<rparr>),
                                 (1, \<lparr>ro_order_reference = 2, ro_shares = 50\<rparr>)],
                    pl_total_shares = 150\<rparr>)],
      asks = [],
      orders = [(2, \<lparr>ol_side = Buy, ol_price = 10, ol_position = 1\<rparr>),
                (1, \<lparr>ol_side = Buy, ol_price = 10, ol_position = 0\<rparr>)],
      book_stats = initial_stats\<lparr>adds := 2\<rparr>, next_node = 2\<rparr>"

lemmas book_eval =
  book_for_def initial_book_def initial_stats_def book_handler_def book_add_def
  insert_on_side_def insert_order_def level_at_def empty_level_def table_emplace_def
  table_find_def table_erase_def bid_before_def ask_before_def Let_def

lemma sample_book_run: "fold_run (deliver (book_handler b)) sample_orders (book_for 5) = Inr sample_book"
  by (simp add: sample_orders_def sample_book_def sample_defs book_eval)

lemma sample_orders_admitted: "spec_admits_all 5 spec_initial sample_orders"
  by (simp add: sample_orders_def sample_eval)

lemma sample_book_represents: "represents 5 sample_book (spec_run 5 sample_orders spec_initial)"
  using run_represents [OF represents_initial sample_orders_admitted, of Debug] by (simp add: sample_book_run)

lemma sample_book_rep_ok: "rep_ok sample_book"
  using represents_rep_ok [OF sample_book_represents] .

lemma sample_book_queue: "queue_at (bids sample_book) 10 = [(1, 100), (2, 50)]"
  by (simp add: sample_book_def queue_at_def order_view_def)

text \<open>A feed that uses a reference twice while it rests: its second order outlives the deletion.\<close>

definition unruly_messages :: "message list" where
  "unruly_messages = [AddOrder (sample_add 5 4 1 Buy 100 10), AddOrder (sample_add 5 5 1 Buy 50 11),
     OrderDelete (sample_delete 5 6 1)]"

definition unruly_book :: order_book where
  "unruly_book =
     \<lparr>locate = 5,
      bids = [(11, \<lparr>pl_orders = [(1, \<lparr>ro_order_reference = 1, ro_shares = 50\<rparr>)],
                    pl_total_shares = 50\<rparr>)],
      asks = [], orders = [],
      book_stats = initial_stats\<lparr>adds := 2, deletes := 1\<rparr>, next_node = 2\<rparr>"

lemma unruly_wf: "list_all wf_message unruly_messages"
  by (simp add: unruly_messages_def sample_defs header_ok_def side_ok_def side_of_char_def)

lemma unruly_run: "fold_run (deliver (book_handler Release)) unruly_messages (book_for 5) = Inr unruly_book"
  by (simp add: unruly_messages_def unruly_book_def sample_defs book_eval book_delete_def
      reduce_or_remove_def reduce_or_remove_in_def list_deref_def list_erase_def
      list_store_def)

lemma unruly_book_state:
  "orders unruly_book = []" "queue_at (bids unruly_book) 10 = []"
  "queue_at (bids unruly_book) 11 = [(1, 50)]" "\<not> check_rep unruly_book"
  by (simp_all add: unruly_book_def queue_at_def order_view_def check_rep_def table_find_def)

end
