(* ===== verification/Unit_Tests.thy ===== *)
theory Unit_Tests
  imports Book_Observations
begin

text \<open>
  The repository's own tests (\<open>tests/test_*.cpp\<close>), run on the model in both builds. Every
  \<open>TEST\<close> is a definition with the same inputs and the same expectations, and a lemma that
  evaluates it. The inputs come from the fixtures' encoder (\<open>Wire_Format\<close>), as in the tests.
\<close>

text \<open>\<open>ASSERT_\<close> and \<open>EXPECT_\<close> on a result: the computation returns and the value is as expected.\<close>

definition expect :: "('a \<Rightarrow> bool) \<Rightarrow> 'a run \<Rightarrow> bool" where
  "expect P m = (case m of Inl e \<Rightarrow> False | Inr x \<Rightarrow> P x)"

definition ch :: "char \<Rightarrow> byte list" where
  "ch value = [byte_of_char value]"

definition test_header :: "char \<Rightarrow> u16 \<Rightarrow> u16 \<Rightarrow> u64 \<Rightarrow> byte list" where
  "test_header ty loc tracking ts =
     header \<lparr>msg_type = ty, stock_locate = loc, tracking_number = tracking, timestamp_ns = ts\<rparr>"

text \<open>A field of the fixtures read back: an integer of its width, or its text padded with spaces.\<close>

lemma load_big_endian_ucast:
  assumes "LENGTH('a) = 8 * n"
  shows "load_big_endian (big_endian v n) = (ucast v :: 'a::len word)"
proof -
  have "load_big_endian (big_endian v n) = (ucast (take_bit (8 * n) v) :: 'a word)"
    using assms by (simp add: load_big_endian_rev big_endian_le_bytes le_word_le_bytes)
  also have "\<dots> = ucast v"
    by (rule bit_word_eqI) (simp add: bit_simps flip: assms)
  finally show ?thesis .
qed

lemma load_big_endian_value:
  "load_big_endian (big_endian v 2) = (ucast v :: u16)"
  "load_big_endian (big_endian v 4) = (ucast v :: u32)"
  "load_big_endian (0 # 0 # big_endian v 6) = take_bit 48 v"
  by (rule load_big_endian_ucast, simp)+ (simp add: load_widened big_endian_le_bytes le_word_le_bytes)

lemma chars_alpha_padded:
  "map char_of_byte (alpha txt n) = take n txt @ replicate (n - length txt) CHR '' ''"
  by (rule nth_equalityI) (auto simp: alpha_def nth_append)

lemma big_endian_byte: "big_endian v (Suc 0) = [ucast v]"
  by (simp add: big_endian_def byte_and_mask)

lemma replicate_two: "replicate 2 x = [x, x]"
  by (simp add: numeral_2_eq_2)

lemmas reads_back =
  run_simps subspan_skip subspan_here subspan_all subspan_Cons nth_append load_big_endian_value
  load_big_endian_u64 chars_alpha_padded ch_def big_endian_byte replicate_two Let_def

section \<open>The byte reader\<close>

definition test_reads_unsigned_fields_big_endian :: "build \<Rightarrow> bool" where
  "test_reads_unsigned_fields_big_endian b \<longleftrightarrow>
     (let bytes = big_endian 0x7F 1 @ big_endian 0x0102 2 @ big_endian 0x01020304 4 @
        big_endian 0x0102030405060708 8
      in read_u8 b bytes 0 = Inr 0x7F \<and> read_u16 b bytes 1 = Inr 0x0102 \<and>
         read_u32 b bytes 3 = Inr 0x01020304 \<and> read_u64 b bytes 7 = Inr 0x0102030405060708)"

lemma ByteReader_ReadsUnsignedFieldsBigEndian: "test_reads_unsigned_fields_big_endian b"
  by (simp add: test_reads_unsigned_fields_big_endian_def reads_back)

definition test_reads_boundary_values :: "build \<Rightarrow> bool" where
  "test_reads_boundary_values b \<longleftrightarrow>
     (let bytes = big_endian 0 2 @ big_endian 0xFFFF 2 @ big_endian 0 4 @ big_endian 0xFFFFFFFF 4 @
        big_endian 0 8 @ big_endian 0xFFFFFFFFFFFFFFFF 8
      in read_u16 b bytes 0 = Inr 0 \<and> read_u16 b bytes 2 = Inr 0xFFFF \<and>
         read_u32 b bytes 4 = Inr 0 \<and> read_u32 b bytes 8 = Inr 0xFFFFFFFF \<and>
         read_u64 b bytes 12 = Inr 0 \<and> read_u64 b bytes 20 = Inr 0xFFFFFFFFFFFFFFFF)"

lemma ByteReader_ReadsBoundaryValues: "test_reads_boundary_values b"
  by (simp add: test_reads_boundary_values_def reads_back)

definition test_reads_six_byte_timestamps :: "build \<Rightarrow> bool" where
  "test_reads_six_byte_timestamps b \<longleftrightarrow>
     (let bytes = big_endian 0 6 @ big_endian 34200000000000 6 @ big_endian 0xFFFFFFFFFFFF 6
      in read_u48 b bytes 0 = Inr 0 \<and> read_u48 b bytes 6 = Inr 34200000000000 \<and>
         read_u48 b bytes 12 = Inr 0xFFFFFFFFFFFF)"

lemma ByteReader_ReadsSixByteTimestamps: "test_reads_six_byte_timestamps b"
  by (simp add: test_reads_six_byte_timestamps_def reads_back)

definition test_reads_fixed_width_alpha_fields_including_padding :: "build \<Rightarrow> bool" where
  "test_reads_fixed_width_alpha_fields_including_padding b \<longleftrightarrow>
     (let bytes = alpha ''AAPL'' 8 @ alpha ''ZVZZT'' 8 @ alpha [] 8 @ alpha ''NSDQ'' 4
      in read_alpha 8 b bytes 0 = Inr ''AAPL    '' \<and> read_alpha 8 b bytes 8 = Inr ''ZVZZT   '' \<and>
         read_alpha 8 b bytes 16 = Inr ''        '' \<and> read_alpha 4 b bytes 24 = Inr ''NSDQ'')"

lemma ByteReader_ReadsFixedWidthAlphaFieldsIncludingPadding: "test_reads_fixed_width_alpha_fields_including_padding b"
  by (simp add: test_reads_fixed_width_alpha_fields_including_padding_def reads_back) (simp add: numeral_eq_Suc)

definition test_reports_record_size :: "bool" where
  "test_reports_record_size \<longleftrightarrow>
     length (big_endian 0 4) = 4"

lemma ByteReader_ReportsRecordSize: "test_reports_record_size"
  by code_simp

section \<open>The message table\<close>

definition test_in_scope_types_match_specification :: "bool" where
  "test_in_scope_types_match_specification \<longleftrightarrow>
     list_all (\<lambda>(c, n). spec_message_length c = n)
       [(CHR ''S'', 12), (CHR ''A'', 36), (CHR ''F'', 40), (CHR ''E'', 31), (CHR ''C'', 36),
        (CHR ''X'', 23), (CHR ''D'', 19), (CHR ''U'', 35), (CHR ''P'', 44)]"

lemma MessageTable_InScopeTypesMatchSpecification: "test_in_scope_types_match_specification"
  by code_simp

definition test_out_of_scope_types_are_still_known :: "bool" where
  "test_out_of_scope_types_are_still_known \<longleftrightarrow>
     list_all (\<lambda>(c, n). spec_message_length c = n)
       [(CHR ''R'', 39), (CHR ''H'', 25), (CHR ''Y'', 20), (CHR ''L'', 26), (CHR ''V'', 35),
        (CHR ''W'', 12), (CHR ''K'', 28), (CHR ''J'', 35), (CHR ''h'', 21), (CHR ''Q'', 40),
        (CHR ''B'', 19), (CHR ''I'', 50), (CHR ''N'', 20)]"

lemma MessageTable_OutOfScopeTypesAreStillKnown: "test_out_of_scope_types_are_still_known"
  by code_simp

definition test_undefined_types_return_zero :: "bool" where
  "test_undefined_types_return_zero \<longleftrightarrow>
     list_all (\<lambda>c. spec_message_length c = 0)
       [CHR 0x00, CHR ''a'', CHR ''Z'', CHR '' '', CHR 0xFF]"

lemma MessageTable_UndefinedTypesReturnZero: "test_undefined_types_return_zero"
  by code_simp

definition test_header_fits_inside_the_shortest_message :: "bool" where
  "test_header_fits_inside_the_shortest_message \<longleftrightarrow>
     unat (spec_message_length CHR ''S'') = kHeaderLength + 1 \<and>
     unat (spec_message_length CHR ''W'') = kHeaderLength + 1"

lemma MessageTable_HeaderFitsInsideTheShortestMessage: "test_header_fits_inside_the_shortest_message"
  by code_simp

section \<open>The decoders\<close>

text \<open>Every field gets a distinct value, so that transposed offsets cannot go unnoticed.\<close>

definition kStockLocate :: u16 where "kStockLocate = 0x1234"
definition kTrackingNumber :: u16 where "kTrackingNumber = 0x5678"
definition kTimestampNs :: u64 where "kTimestampNs = 34200 * 1000000000 + 123456789"

definition distinct_header :: "char \<Rightarrow> byte list" where
  "distinct_header ty = test_header ty kStockLocate kTrackingNumber kTimestampNs"

lemma dropWhile_padding: "P x \<Longrightarrow> dropWhile P (replicate n x @ xs) = dropWhile P xs"
  by (induction n) simp_all

lemmas decodes_back =
  distinct_header_def kStockLocate_def kTrackingNumber_def kTimestampNs_def test_header_def expect_def decode_at side_valid_at_def is_valid_side_def side_of_char_def
  system_event_at_def add_order_at_def add_order_with_mpid_at_def order_executed_at_def
  order_executed_with_price_at_def order_cancel_at_def order_delete_at_def order_replace_at_def
  trade_non_cross_at_def header_at_header header_skip header_ok_def spec_message_length_simps trim_def dropWhile_padding


definition test_decodes_system_event :: "build \<Rightarrow> bool" where
  "test_decodes_system_event b \<longleftrightarrow>
     (let bytes = distinct_header CHR ''S'' @ ch CHR ''Q''
      in length bytes = unat (spec_message_length CHR ''S'') \<and>
         expect (\<lambda>m. se_header m =
             \<lparr>msg_type = CHR ''S'', stock_locate = kStockLocate, tracking_number = kTrackingNumber,
              timestamp_ns = kTimestampNs\<rparr> \<and>
             se_event_code m = CHR ''Q'')
           (decode_system_event b bytes))"

lemma Messages_DecodesSystemEvent: "test_decodes_system_event b"
  by (simp add: test_decodes_system_event_def decodes_back reads_back)

definition test_decodes_add_order :: "build \<Rightarrow> bool" where
  "test_decodes_add_order b \<longleftrightarrow>
     (let bytes = distinct_header CHR ''A'' @ big_endian 0x1122334455667788 8 @ ch CHR ''B'' @
        big_endian 500 4 @ alpha ''AAPL'' 8 @ big_endian 1650000 4
      in length bytes = unat (spec_message_length CHR ''A'') \<and>
         expect (\<lambda>m. timestamp_ns (ao_header m) = kTimestampNs \<and>
             ao_order_reference m = 0x1122334455667788 \<and> ao_side m = Buy \<and> ao_shares m = 500 \<and>
             trim (ao_stock m) = ''AAPL'' \<and> ao_price m = 1650000)
           (decode_add_order b bytes))"

lemma Messages_DecodesAddOrder: "test_decodes_add_order b"
  by (simp add: test_decodes_add_order_def decodes_back reads_back)

definition test_decodes_add_order_at_domain_boundaries :: "build \<Rightarrow> bool" where
  "test_decodes_add_order_at_domain_boundaries b \<longleftrightarrow>
     (let bytes = test_header CHR ''A'' 0 0 0 @ big_endian 0xFFFFFFFFFFFFFFFF 8 @ ch CHR ''S'' @
        big_endian 0 4 @ alpha [] 8 @ big_endian 0xFFFFFFFF 4
      in expect (\<lambda>m. ao_order_reference m = 0xFFFFFFFFFFFFFFFF \<and> ao_side m = Sell \<and>
             ao_shares m = 0 \<and> trim (ao_stock m) = [] \<and> ao_price m = 0xFFFFFFFF)
           (decode_add_order b bytes))"

lemma Messages_DecodesAddOrderAtDomainBoundaries: "test_decodes_add_order_at_domain_boundaries b"
  by (simp add: test_decodes_add_order_at_domain_boundaries_def decodes_back reads_back)

definition test_decodes_add_order_with_mpid :: "build \<Rightarrow> bool" where
  "test_decodes_add_order_with_mpid b \<longleftrightarrow>
     (let bytes = distinct_header CHR ''F'' @ big_endian 42 8 @ ch CHR ''S'' @ big_endian 100 4 @
        alpha ''MSFT'' 8 @ big_endian 4200000 4 @ alpha ''NSDQ'' 4
      in length bytes = unat (spec_message_length CHR ''F'') \<and>
         expect (\<lambda>m. ao_order_reference (am_order m) = 42 \<and> ao_side (am_order m) = Sell \<and>
             ao_shares (am_order m) = 100 \<and> trim (ao_stock (am_order m)) = ''MSFT'' \<and>
             ao_price (am_order m) = 4200000 \<and> trim (am_attribution m) = ''NSDQ'')
           (decode_add_order_with_mpid b bytes))"

lemma Messages_DecodesAddOrderWithMpid: "test_decodes_add_order_with_mpid b"
  by (simp add: test_decodes_add_order_with_mpid_def decodes_back reads_back)

definition test_decodes_order_executed :: "build \<Rightarrow> bool" where
  "test_decodes_order_executed b \<longleftrightarrow>
     (let bytes = distinct_header CHR ''E'' @ big_endian 0x0A0B0C0D0E0F1011 8 @
        big_endian 250 4 @ big_endian 0x00FF00FF00FF00FF 8
      in length bytes = unat (spec_message_length CHR ''E'') \<and>
         expect (\<lambda>m. oe_order_reference m = 0x0A0B0C0D0E0F1011 \<and>
             oe_executed_shares m = 250 \<and> oe_match_number m = 0x00FF00FF00FF00FF)
           (decode_order_executed b bytes))"

lemma Messages_DecodesOrderExecuted: "test_decodes_order_executed b"
  by (simp add: test_decodes_order_executed_def decodes_back reads_back)

definition test_decodes_order_executed_with_price :: "build \<Rightarrow> bool" where
  "test_decodes_order_executed_with_price b \<longleftrightarrow>
     (let bytes = distinct_header CHR ''C'' @ big_endian 7 8 @ big_endian 300 4 @ big_endian 99 8 @
        ch CHR ''Y'' @ big_endian 1649900 4
      in length bytes = unat (spec_message_length CHR ''C'') \<and>
         expect (\<lambda>m. oe_order_reference (op_executed m) = 7 \<and> oe_executed_shares (op_executed m) = 300 \<and>
             oe_match_number (op_executed m) = 99 \<and> op_printable m = CHR ''Y'' \<and>
             op_execution_price m = 1649900)
           (decode_order_executed_with_price b bytes))"

lemma Messages_DecodesOrderExecutedWithPrice: "test_decodes_order_executed_with_price b"
  by (simp add: test_decodes_order_executed_with_price_def decodes_back reads_back)

definition test_decodes_order_cancel :: "build \<Rightarrow> bool" where
  "test_decodes_order_cancel b \<longleftrightarrow>
     (let bytes = distinct_header CHR ''X'' @ big_endian 0xDEADBEEFCAFEF00D 8 @ big_endian 75 4
      in length bytes = unat (spec_message_length CHR ''X'') \<and>
         expect (\<lambda>m. oc_order_reference m = 0xDEADBEEFCAFEF00D \<and> oc_cancelled_shares m = 75)
           (decode_order_cancel b bytes))"

lemma Messages_DecodesOrderCancel: "test_decodes_order_cancel b"
  by (simp add: test_decodes_order_cancel_def decodes_back reads_back)

definition test_decodes_order_delete :: "build \<Rightarrow> bool" where
  "test_decodes_order_delete b \<longleftrightarrow>
     (let bytes = distinct_header CHR ''D'' @ big_endian 0x0102030405060708 8
      in length bytes = unat (spec_message_length CHR ''D'') \<and>
         expect (\<lambda>m. od_order_reference m = 0x0102030405060708)
           (decode_order_delete b bytes))"

lemma Messages_DecodesOrderDelete: "test_decodes_order_delete b"
  by (simp add: test_decodes_order_delete_def decodes_back reads_back)

definition test_decodes_order_replace :: "build \<Rightarrow> bool" where
  "test_decodes_order_replace b \<longleftrightarrow>
     (let bytes = distinct_header CHR ''U'' @ big_endian 1111 8 @ big_endian 2222 8 @ big_endian 400 4 @
        big_endian 1655000 4
      in length bytes = unat (spec_message_length CHR ''U'') \<and>
         expect (\<lambda>m. ore_original_order_reference m = 1111 \<and> ore_new_order_reference m = 2222 \<and>
             ore_shares m = 400 \<and> ore_price m = 1655000)
           (decode_order_replace b bytes))"

lemma Messages_DecodesOrderReplace: "test_decodes_order_replace b"
  by (simp add: test_decodes_order_replace_def decodes_back reads_back)

definition test_decodes_trade_non_cross :: "build \<Rightarrow> bool" where
  "test_decodes_trade_non_cross b \<longleftrightarrow>
     (let bytes = distinct_header CHR ''P'' @ big_endian 31337 8 @ ch CHR ''B'' @ big_endian 600 4 @
        alpha ''NVDA'' 8 @ big_endian 1234500 4 @ big_endian 0xABCDEF 8
      in length bytes = unat (spec_message_length CHR ''P'') \<and>
         expect (\<lambda>m. tr_order_reference m = 31337 \<and> tr_side m = Buy \<and> tr_shares m = 600 \<and>
             trim (tr_stock m) = ''NVDA'' \<and> tr_price m = 1234500 \<and> tr_match_number m = 0xABCDEF)
           (decode_trade_non_cross b bytes))"

lemma Messages_DecodesTradeNonCross: "test_decodes_trade_non_cross b"
  by (simp add: test_decodes_trade_non_cross_def decodes_back reads_back)

definition test_trim_handles_full_and_empty_fields :: "bool" where
  "test_trim_handles_full_and_empty_fields \<longleftrightarrow>
     trim ''ABCDEFGH'' = ''ABCDEFGH'' \<and> trim ''        '' = []"

lemma Messages_TrimHandlesFullAndEmptyFields: "test_trim_handles_full_and_empty_fields"
  by code_simp

section \<open>The framer\<close>

text \<open>\<open>Capture\<close>: the types and the sizes of the records handed out.\<close>

definition capture :: "(char list \<times> nat list) callback" where
  "capture ty record seen = Inr (fst seen @ [ty], snd seen @ [length record])"

definition framed_add_order :: "u64 \<Rightarrow> byte list" where
  "framed_add_order order_reference =
     framed (test_header CHR ''A'' 1 0 1000 @ big_endian order_reference 8 @ ch CHR ''B'' @
       big_endian 100 4 @ alpha ''AAPL'' 8 @ big_endian 1650000 4)"

definition framed_order_delete :: "u64 \<Rightarrow> byte list" where
  "framed_order_delete order_reference =
     framed (test_header CHR ''D'' 1 0 2000 @ big_endian order_reference 8)"

definition test_empty_buffer_is_complete_with_no_messages :: "bool" where
  "test_empty_buffer_is_complete_with_no_messages \<longleftrightarrow>
     (let file = [] in
      expect (\<lambda>(outcome, seen). complete outcome \<and>
          messages outcome = 0 \<and> bytes_consumed outcome = 0)
        (frame_all file capture ([], [])))"

lemma Framer_EmptyBufferIsCompleteWithNoMessages: "test_empty_buffer_is_complete_with_no_messages"
  by code_simp

definition test_frames_a_single_record :: "bool" where
  "test_frames_a_single_record \<longleftrightarrow>
     (let file = framed_add_order 1 in
      expect (\<lambda>(outcome, seen). complete outcome \<and> messages outcome = 1 \<and>
          bytes_consumed outcome = length file \<and>
          fst seen = [CHR ''A''] \<and> snd seen = [unat (spec_message_length CHR ''A'')])
        (frame_all file capture ([], [])))"

lemma Framer_FramesASingleRecord: "test_frames_a_single_record"
  by code_simp

definition test_frames_records_of_different_lengths_in_order :: "bool" where
  "test_frames_records_of_different_lengths_in_order \<longleftrightarrow>
     (let file = framed_add_order 1 @ framed_order_delete 1 @ framed_add_order 2 in
      expect (\<lambda>(outcome, seen). complete outcome \<and> messages outcome = 3 \<and>
          bytes_consumed outcome = length file \<and>
          fst seen = [CHR ''A'', CHR ''D'', CHR ''A''] \<and> snd seen = [36, 19, 36])
        (frame_all file capture ([], [])))"

lemma Framer_FramesRecordsOfDifferentLengthsInOrder: "test_frames_records_of_different_lengths_in_order"
  by code_simp

definition test_rejects_a_truncated_length_prefix :: "bool" where
  "test_rejects_a_truncated_length_prefix \<longleftrightarrow>
     (let file = framed_add_order 1 @ [0] in
      expect (\<lambda>(outcome, seen). frame_error outcome = Some TruncatedPrefix \<and>
          messages outcome = 1 \<and> error_offset outcome = length file - 1)
        (frame_all file capture ([], [])))"

lemma Framer_RejectsATruncatedLengthPrefix: "test_rejects_a_truncated_length_prefix"
  by code_simp

definition test_rejects_a_zero_length_record :: "bool" where
  "test_rejects_a_zero_length_record \<longleftrightarrow>
     (let file = [0, 0] in
      expect (\<lambda>(outcome, seen). frame_error outcome = Some ZeroLength \<and> error_offset outcome = 0)
        (frame_all file capture ([], [])))"

lemma Framer_RejectsAZeroLengthRecord: "test_rejects_a_zero_length_record"
  by code_simp

definition test_rejects_a_record_running_past_the_end :: "bool" where
  "test_rejects_a_record_running_past_the_end \<longleftrightarrow>
     (let file = take (length (framed_add_order 1) - 4) (framed_add_order 1) in
      expect (\<lambda>(outcome, seen). frame_error outcome = Some TruncatedRecord \<and>
          messages outcome = 0)
        (frame_all file capture ([], [])))"

lemma Framer_RejectsARecordRunningPastTheEnd: "test_rejects_a_record_running_past_the_end"
  by code_simp

definition test_rejects_an_undefined_message_type :: "bool" where
  "test_rejects_an_undefined_message_type \<longleftrightarrow>
     (let file = (framed_add_order 1)[2 := byte_of_char CHR ''Z''] in
      expect (\<lambda>(outcome, seen). frame_error outcome = Some UnknownType \<and>
          error_type outcome = CHR ''Z'')
        (frame_all file capture ([], [])))"

lemma Framer_RejectsAnUndefinedMessageType: "test_rejects_an_undefined_message_type"
  by code_simp

definition test_rejects_a_length_that_disagrees_with_the_specification :: "bool" where
  "test_rejects_a_length_that_disagrees_with_the_specification \<longleftrightarrow>
     (let file = butlast ((framed_add_order 1)[1 := 35]) in
      expect (\<lambda>(outcome, seen). frame_error outcome = Some LengthMismatch \<and>
          error_type outcome = CHR ''A'' \<and> messages outcome = 0)
        (frame_all file capture ([], [])))"

lemma Framer_RejectsALengthThatDisagreesWithTheSpecification: "test_rejects_a_length_that_disagrees_with_the_specification"
  by code_simp

definition test_describes_every_error :: "bool" where
  "test_describes_every_error \<longleftrightarrow>
     list_all (\<lambda>e. describe e \<noteq> [])
       [TruncatedPrefix, ZeroLength, TruncatedRecord, UnknownType, LengthMismatch]"

lemma Framer_DescribesEveryError: "test_describes_every_error"
  by code_simp

section \<open>The parser\<close>

text \<open>\<open>RecordingHandler\<close>: the types that were decoded and those that were not.\<close>

definition decoded_as :: "char \<Rightarrow> 'm \<Rightarrow> char list \<times> char list \<Rightarrow> (char list \<times> char list) run" where
  "decoded_as ty m s = Inr (fst s @ [ty], snd s)"

definition recording_handler :: "(char list \<times> char list) handler" where
  "recording_handler =
     \<lparr>on_system_event = decoded_as CHR ''S'',
      on_add_order = decoded_as CHR ''A'',
      on_add_order_with_mpid = decoded_as CHR ''F'',
      on_order_executed = decoded_as CHR ''E'',
      on_order_executed_with_price = decoded_as CHR ''C'',
      on_order_cancel = decoded_as CHR ''X'',
      on_order_delete = decoded_as CHR ''D'',
      on_order_replace = decoded_as CHR ''U'',
      on_trade_non_cross = decoded_as CHR ''P'',
      on_stock_directory = decoded_as CHR ''R'',
      on_other = (\<lambda>ty record s. Inr (fst s, snd s @ [ty]))\<rparr>"

definition one_of_each :: "byte list list" where
  "one_of_each =
     [test_header CHR ''S'' 0 0 100 @ ch CHR ''O'',
      test_header CHR ''A'' 1 0 200 @ big_endian 1 8 @ ch CHR ''B'' @ big_endian 100 4 @
        alpha ''AAPL'' 8 @ big_endian 1650000 4,
      test_header CHR ''F'' 1 0 300 @ big_endian 2 8 @ ch CHR ''S'' @ big_endian 200 4 @
        alpha ''AAPL'' 8 @ big_endian 1660000 4 @ alpha ''NSDQ'' 4,
      test_header CHR ''E'' 1 0 400 @ big_endian 1 8 @ big_endian 50 4 @ big_endian 9 8,
      test_header CHR ''C'' 1 0 500 @ big_endian 1 8 @ big_endian 25 4 @ big_endian 10 8 @
        ch CHR ''Y'' @ big_endian 1649900 4,
      test_header CHR ''X'' 1 0 600 @ big_endian 1 8 @ big_endian 10 4,
      test_header CHR ''D'' 1 0 700 @ big_endian 1 8,
      test_header CHR ''U'' 1 0 800 @ big_endian 2 8 @ big_endian 3 8 @ big_endian 150 4 @
        big_endian 1655000 4,
      test_header CHR ''P'' 1 0 900 @ big_endian 4 8 @ ch CHR ''B'' @ big_endian 75 4 @
        alpha ''AAPL'' 8 @ big_endian 1652000 4 @ big_endian 11 8,
      test_header CHR ''R'' 1 0 1000 @ alpha ''AAPL'' 8 @ ch CHR ''Q'' @ ch CHR ''N'' @
        big_endian 100 4 @ ch CHR ''N'' @ ch CHR ''C'' @ alpha ''  '' 2 @ ch CHR ''P'' @
        ch CHR ''N'' @ ch CHR ''N'' @ ch CHR ''1'' @ ch CHR ''N'' @ big_endian 0 4 @ ch CHR ''N'',
      test_header CHR ''H'' 1 0 1100 @ alpha ''AAPL'' 8 @ ch CHR ''T'' @ ch CHR '' '' @
        alpha ''    '' 4]"

lemmas one_of_each_length = one_of_each_def test_header_def ch_def

lemma one_of_each_valid: "list_all valid_record one_of_each"
  by (simp add: one_of_each_length valid_record_def record_type_def header_def spec_message_length_simps)

lemmas dispatches = dispatch_record_def decode_at side_valid_at_def is_valid_side_def
  recording_handler_def decoded_as_def


definition test_dispatches_every_in_scope_type_and_defers_the_rest :: "build \<Rightarrow> bool" where
  "test_dispatches_every_in_scope_type_and_defers_the_rest b \<longleftrightarrow>
     (let file = concat (map framed one_of_each) in
      expect (\<lambda>(outcome, s). complete outcome \<and> bytes_consumed outcome = length file \<and>
          messages outcome = 11 \<and> fst s = ''SAFECXDUPR'' \<and> snd s = ''H'')
        (parse_all b file recording_handler ([], [])))"

lemma Parser_DispatchesEveryInScopeTypeAndDefersTheRest: "test_dispatches_every_in_scope_type_and_defers_the_rest b"
  using split_frames_unique [OF one_of_each_valid, of "[]"]
  by (simp add: test_dispatches_every_in_scope_type_and_defers_the_rest_def parse_all_def frame_all_split
      split_outcome_def expect_def complete_def deliver_all_def)
    (simp add: dispatches one_of_each_length record_type_def nth_append header_def)

definition test_dispatch_record_decodes_one_record_without_framing :: "build \<Rightarrow> bool" where
  "test_dispatch_record_decodes_one_record_without_framing b \<longleftrightarrow>
     expect (\<lambda>s. fst s = ''A'' \<and> snd s = ''H'')
       (bind_run (dispatch_record b CHR ''A'' (one_of_each ! 1) recording_handler ([], []))
         (dispatch_record b CHR ''H''
           (test_header CHR ''H'' 1 0 300 @ alpha ''AAPL'' 8 @ ch CHR ''T'' @ ch CHR '' '' @
             alpha ''    '' 4) recording_handler))"

lemma Parser_DispatchRecordDecodesOneRecordWithoutFraming: "test_dispatch_record_decodes_one_record_without_framing b"
  by (simp add: test_dispatch_record_decodes_one_record_without_framing_def dispatches one_of_each_length
      expect_def header_skip nth_append)

section \<open>The order book\<close>

definition kLocate :: u16 where "kLocate = 7"

definition book_header :: "char \<Rightarrow> u16 \<Rightarrow> u64 \<Rightarrow> message_header" where
  "book_header ty loc ts =
     \<lparr>msg_type = ty, stock_locate = loc, tracking_number = 0, timestamp_ns = ts\<rparr>"

definition add_at :: "u64 \<Rightarrow> side \<Rightarrow> u32 \<Rightarrow> price_ticks \<Rightarrow> u16 \<Rightarrow> add_order" where
  "add_at reference sd shares price loc =
     \<lparr>ao_header = book_header CHR ''A'' loc reference,
      ao_order_reference = reference, ao_side = sd, ao_shares = shares,
      ao_stock = replicate 8 (CHR 0x00), ao_price = price\<rparr>"

definition make_book :: "build \<Rightarrow> order_book run" where
  "make_book b = set_locate b kLocate initial_book"

text \<open>The calls of \<open>on\<close> of a test, in order, on a new book.\<close>

definition book_after :: "build \<Rightarrow> message list \<Rightarrow> order_book run" where
  "book_after b ms = bind_run (make_book b) (fold_run (deliver (book_handler b)) ms)"

definition test_add_order_sets_best_bid_and_ask :: "build \<Rightarrow> bool" where
  "test_add_order_sets_best_bid_and_ask b \<longleftrightarrow>
     expect (\<lambda>bk. best_bid bk = Some \<lparr>bl_price = 15000, bl_shares = 100\<rparr> \<and>
         best_ask bk = Some \<lparr>bl_price = 15100, bl_shares = 200\<rparr> \<and> check_rep bk)
       (book_after b
         [AddOrder (add_at 1 Buy 100 15000 kLocate),
          AddOrder (add_at 2 Sell 200 15100 kLocate)])"

lemma OrderBook_AddOrderSetsBestBidAndAsk: "test_add_order_sets_best_bid_and_ask b"
  by (cases b; hypsubst; code_simp)

definition test_multiple_orders_at_same_price_aggregate_shares :: "build \<Rightarrow> bool" where
  "test_multiple_orders_at_same_price_aggregate_shares b \<longleftrightarrow>
     expect (\<lambda>bk. map_option bl_shares (best_bid bk) = Some 150 \<and>
         bid_level_count bk = 1 \<and> order_count bk = 2 \<and> check_rep bk)
       (book_after b
         [AddOrder (add_at 1 Buy 100 15000 kLocate),
          AddOrder (add_at 2 Buy 50 15000 kLocate)])"

lemma OrderBook_MultipleOrdersAtSamePriceAggregateShares: "test_multiple_orders_at_same_price_aggregate_shares b"
  by (cases b; hypsubst; code_simp)

definition test_ignores_messages_for_a_different_locate :: "build \<Rightarrow> bool" where
  "test_ignores_messages_for_a_different_locate b \<longleftrightarrow>
     expect (\<lambda>bk. best_bid bk = None \<and> order_count bk = 0 \<and> adds (book_stats bk) = 0)
       (book_after b
         [AddOrder (add_at 1 Buy 100 15000 (kLocate + 1))])"

lemma OrderBook_IgnoresMessagesForADifferentLocate: "test_ignores_messages_for_a_different_locate b"
  by (cases b; hypsubst; code_simp)

definition test_add_order_with_mpid_delegates_to_the_plain_add :: "build \<Rightarrow> bool" where
  "test_add_order_with_mpid_delegates_to_the_plain_add b \<longleftrightarrow>
     expect (\<lambda>bk. best_bid bk \<noteq> None \<and> adds (book_stats bk) = 1)
       (book_after b
         [AddOrderWithMpid \<lparr>am_order = add_at 1 Buy 100 15000 kLocate,
            am_attribution = replicate 4 (CHR 0x00)\<rparr>])"

lemma OrderBook_AddOrderWithMpidDelegatesToThePlainAdd: "test_add_order_with_mpid_delegates_to_the_plain_add b"
  by (cases b; hypsubst; code_simp)

definition test_cancel_reduces_shares_without_removing_the_order :: "build \<Rightarrow> bool" where
  "test_cancel_reduces_shares_without_removing_the_order b \<longleftrightarrow>
     expect (\<lambda>bk. map_option bl_shares (best_bid bk) = Some 60 \<and>
         order_count bk = 1 \<and> cancels (book_stats bk) = 1 \<and> check_rep bk)
       (book_after b
         [AddOrder (add_at 1 Buy 100 15000 kLocate),
          OrderCancel \<lparr>oc_header = book_header CHR ''X'' kLocate 2, oc_order_reference = 1,
            oc_cancelled_shares = 40\<rparr>])"

lemma OrderBook_CancelReducesSharesWithoutRemovingTheOrder: "test_cancel_reduces_shares_without_removing_the_order b"
  by (cases b; hypsubst; code_simp)

definition test_delete_removes_the_order_and_empties_the_level :: "build \<Rightarrow> bool" where
  "test_delete_removes_the_order_and_empties_the_level b \<longleftrightarrow>
     expect (\<lambda>bk. best_bid bk = None \<and> order_count bk = 0 \<and> bid_level_count bk = 0 \<and>
         deletes (book_stats bk) = 1 \<and> check_rep bk)
       (book_after b
         [AddOrder (add_at 1 Buy 100 15000 kLocate),
          OrderDelete \<lparr>od_header = book_header CHR ''D'' kLocate 2, od_order_reference = 1\<rparr>])"

lemma OrderBook_DeleteRemovesTheOrderAndEmptiesTheLevel: "test_delete_removes_the_order_and_empties_the_level b"
  by (cases b; hypsubst; code_simp)

definition test_executed_reduces_shares_like_a_cancel :: "build \<Rightarrow> bool" where
  "test_executed_reduces_shares_like_a_cancel b \<longleftrightarrow>
     expect (\<lambda>bk. map_option bl_shares (best_ask bk) = Some 70 \<and>
         executions (book_stats bk) = 1 \<and> check_rep bk)
       (book_after b
         [AddOrder (add_at 1 Sell 100 15100 kLocate),
          OrderExecuted \<lparr>oe_header = book_header CHR ''E'' kLocate 2, oe_order_reference = 1,
            oe_executed_shares = 30, oe_match_number = 999\<rparr>])"

lemma OrderBook_ExecutedReducesSharesLikeACancel: "test_executed_reduces_shares_like_a_cancel b"
  by (cases b; hypsubst; code_simp)

definition test_executed_with_price_delegates_to_the_embedded_executed :: "build \<Rightarrow> bool" where
  "test_executed_with_price_delegates_to_the_embedded_executed b \<longleftrightarrow>
     expect (\<lambda>bk. best_ask bk = None \<and>
         executions (book_stats bk) = 1 \<and> check_rep bk)
       (book_after b
         [AddOrder (add_at 1 Sell 100 15100 kLocate),
          OrderExecutedWithPrice \<lparr>op_executed = \<lparr>oe_header = book_header CHR ''C'' kLocate 2, oe_order_reference = 1,
            oe_executed_shares = 100, oe_match_number = 999\<rparr>,
            op_printable = CHR ''Y'', op_execution_price = 15050\<rparr>])"

lemma OrderBook_ExecutedWithPriceDelegatesToTheEmbeddedExecuted: "test_executed_with_price_delegates_to_the_embedded_executed b"
  by (cases b; hypsubst; code_simp)

definition test_replace_moves_the_order_to_its_new_price_at_the_back_of_the_queue :: "build \<Rightarrow> bool" where
  "test_replace_moves_the_order_to_its_new_price_at_the_back_of_the_queue b \<longleftrightarrow>
     expect (\<lambda>bk. best_bid bk = Some \<lparr>bl_price = 15050, bl_shares = 80\<rparr> \<and> order_count bk = 2 \<and>
         replaces (book_stats bk) = 1 \<and> check_rep bk)
       (book_after b
         [AddOrder (add_at 1 Buy 100 15000 kLocate),
          AddOrder (add_at 2 Buy 50 15000 kLocate),
          OrderReplace \<lparr>ore_header = book_header CHR ''U'' kLocate 3, ore_original_order_reference = 1,
            ore_new_order_reference = 3, ore_shares = 80, ore_price = 15050\<rparr>])"

lemma OrderBook_ReplaceMovesTheOrderToItsNewPriceAtTheBackOfTheQueue: "test_replace_moves_the_order_to_its_new_price_at_the_back_of_the_queue b"
  by (cases b; hypsubst; code_simp)

definition test_trade_non_cross_tallies_without_touching_the_book :: "build \<Rightarrow> bool" where
  "test_trade_non_cross_tallies_without_touching_the_book b \<longleftrightarrow>
     expect (\<lambda>bk. trades (book_stats bk) = 1 \<and>
         map_option bl_shares (best_bid bk) = Some 100)
       (book_after b
         [AddOrder (add_at 1 Buy 100 15000 kLocate),
          TradeNonCross \<lparr>tr_header = book_header CHR ''P'' kLocate 2, tr_order_reference = 9, tr_side = Buy,
            tr_shares = 100, tr_stock = replicate 8 (CHR 0x00), tr_price = 15000,
            tr_match_number = 555\<rparr>])"

lemma OrderBook_TradeNonCrossTalliesWithoutTouchingTheBook: "test_trade_non_cross_tallies_without_touching_the_book b"
  by (cases b; hypsubst; code_simp)

end
