(* ===== verification/Spec2Isabelle.thy ===== *)
theory Spec2Isabelle
  imports Sample_Session Unit_Tests
begin

text \<open>
  A verification of the ITCH 5.0 parser and order book in \<open>src/\<close> (C++20).

  \<^bold>\<open>The program.\<close> A BinaryFILE session is a sequence of records, each behind a two-byte
  big-endian length. \<open>frame_all\<close> (framer.hpp) walks the frames and hands every record whose
  length is the one its type demands (message_table.cpp) to a callback; \<open>parse_all\<close> and
  \<open>dispatch_record\<close> (parser.hpp) decode the record (messages.hpp, byte_reader.hpp) and call
  the handler's overload for the message. Two handlers exist: \<open>OrderBook\<close> (order_book.hpp/cpp),
  wrapped by \<open>BookReplayHandler\<close> in tools/book_replay.cpp, and \<open>SessionCensus\<close> in
  tools/itch_count.cpp. \<open>MappedFile\<close> (mapped_file.hpp/cpp) owns the bytes.
  tools/reference_book.py and tools/reference_count.py are an independent book and an
  independent census that the two tools are checked against, and tests/fixtures.hpp holds the
  encoder the tests use.

  \<^bold>\<open>Theories, in the order of the code.\<close>
  \<^item> \<open>Itch_Prelude\<close>: machine integers, the two builds, computations that may fault, folds,
    subspans. A computation is an error (a failed assertion or undefined behaviour) or a value.
  \<^item> \<open>Byte_Reader\<close> (byte_reader.hpp), \<open>Message_Table\<close> (message_table.hpp/cpp),
    \<open>Messages\<close> (messages.hpp), \<open>Wire_Format\<close> (fixtures.hpp), \<open>Framer\<close> (framer.hpp/cpp),
    \<open>Parser\<close> (parser.hpp): one definition per function, one record per struct, one
    \<open>datatype\<close> per enumeration; a handler is a record of state transformers, one field per
    overload of \<open>on\<close>.
  \<^item> \<open>Codec\<close>: an encoder for every message and the round trips with the decoders.
    \<open>Framing_Resume\<close>: a buffer that is framed in two pieces.
  \<^item> \<open>Session\<close>: parsing a buffer is delivering the messages of its records in order; the
    contracts of handlers, as locales.
  \<^item> \<open>Containers\<close>: \<open>std::map\<close>, \<open>std::unordered_map\<close> and \<open>std::list\<close> with its iterators.
  \<^item> \<open>Order_Book\<close> (order_book.hpp/cpp): the state is the record \<open>order_book\<close> (levels sorted by
    the comparator, the lookup table, the tallies, the node allocator); every \<open>on\<close> is a
    definition \<open>book_*\<close>.
  \<^item> \<open>Book_Levels\<close>, \<open>Book_Invariant\<close>, \<open>Book_Steps\<close>, \<open>Book_Check\<close>: what the operations do to one
    side, the representation invariant \<open>rep_ok\<close>, that admissible messages keep it, and that
    \<open>check_rep\<close> decides it. \<open>Book_Safety\<close>: the weaker invariant \<open>anchored\<close>, which every message
    keeps and which excludes undefined behaviour; what every feed leaves of the book
    (\<open>sound_book\<close>), and orders that nothing leads to (\<open>orphaned\<close>).
  \<^item> \<open>Book_Spec\<close>, \<open>Book_Refinement\<close>, \<open>Book_Observations\<close>: the abstract book (a list of orders in
    order of arrival), the refinement, and what the queries return. \<open>Book_Isolation\<close>: only the
    messages of the book's own locate count. \<open>Book_Ledger\<close>: the book as a function of the
    history of its messages, one account per order reference.
  \<^item> \<open>Itch_Count\<close> (the census of tools/itch_count.cpp), \<open>Book_Replay\<close> (the handler of
    tools/book_replay.cpp and the values of its report), \<open>Reference_Book\<close> and \<open>Reference_Count\<close>
    (tools/reference_book.py and tools/reference_count.py), \<open>Reference_Errors\<close> (what they write
    on the standard error).
    \<open>Session_Totals\<close>: the census and the books of all symbols, run on one file.
  \<^item> \<open>Text_Output\<close>, \<open>Double_Output\<close>: what the tools use of \<open>iostream\<close> and \<open>printf\<close>, and their
    arithmetic on \<open>double\<close>. \<open>Count_Report\<close>, \<open>Replay_Report\<close>, \<open>Reference_Report\<close>: the three \<open>main\<close>
    functions, with their exit codes and the text they write, character by character.
  \<^item> \<open>Build_Agreement\<close>: assertions only observe. \<open>Mapped_File\<close>: ownership of descriptors and
    mappings. \<open>Tool_Processes\<close>: the tools on an operating system, with the \<open>MappedFile\<close> of
    their scope. \<open>Book_Faults\<close>: feeds that break what the exchange promises.
  \<^item> \<open>Unit_Tests\<close>: the 41 tests of tests/test_*.cpp, run on the definitions in both builds.
  \<^item> \<open>Sample_Session\<close>: concrete inputs. This theory: the properties, with an application of
    each to a concrete input where it has hypotheses.

  \<^bold>\<open>Builds.\<close> Assertions are evaluated in a debug build and absent in the default
  \<open>RelWithDebInfo\<close> build, which defines \<open>NDEBUG\<close>; operations that assert take the build as an
  argument. Reading outside a record, following an iterator that is not in its list and
  dereferencing a level that is not there are undefined behaviour in the model.

  \<^bold>\<open>Integers.\<close> Fields, shares, totals and tallies have the widths of the code and wrap. Sizes
  and offsets (\<open>size_t\<close>) are natural numbers: all are bounded by the size of a buffer.

  \<^bold>\<open>Loops.\<close> No fuel is used. The framing loop terminates because every turn consumes at least
  the prefix; all other loops are structural.

  \<^bold>\<open>Admitted feeds.\<close> The refinement assumes what the exchange promises: an order reference is
  not reused while it rests, and no more is executed or cancelled than rests. \<open>Book_Ledger\<close> gives
  a sufficient condition on the messages alone (\<open>orderly\<close>), which also asks that orders carry
  shares, that no reference is ever opened twice, and that deletions and replacements name
  orders that were opened, replacements ones with shares left. What happens without these
  promises is stated too (the last section). Memory safety, what holds of the book after any
  feed (\<open>sound_book\<close>) and the totals of a session assume nothing.

  \<^bold>\<open>Floating point.\<close> A \<open>double\<close> is the rational number it stands for; every operation rounds to
  53 significant bits, ties to even. The exponent range is left out, since the operands are
  0 or between \<open>10 ^ -9\<close> and \<open>10 ^ 29\<close>.

  \<^bold>\<open>Parameters.\<close> The operating system's answers and the contents of mapped memory (the records
  \<open>os\<close> and \<open>machine\<close>), the text of a \<open>std::system_error\<close>, the order \<open>std::sort\<close> gives to rows with
  equal counts (its contract is \<open>sorts\<close>), and the time that passes while parsing. The symbol
  on the command line of the Python book is the bytes its \<open>encode()\<close> gives; that it does not
  raise, which an undecodable argument would make it do, is taken for granted. The bound
  of \<open>2 ^ 36\<close> bytes in the properties of \<open>itch_count\<close> keeps the printed rate below \<open>2 ^ 64\<close>
  messages per second even for one nanosecond; the largest sessions are below it.

  \<^bold>\<open>Not modelled.\<close> Allocation failure, \<open>madvise\<close>, which is advisory, the Python
  tools' parsing of arguments and opening of files, and the build files.
\<close>

section \<open>The order book\<close>

text \<open>
  C1. The order book implements price-time priority. For every file whose messages the
  abstract book admits, parsing the file with the book as the handler returns, in either
  build; at every price of either side the queue is the sublist of the abstract book's
  resting orders, in order of arrival; the tallies are those of the abstract book; and
  \<open>check_rep\<close> holds.
\<close>

theorem book_implements_spec:
  assumes "passes_asserts b file"
    and "spec_admits_all loc spec_initial (session_messages file)"
  shows "\<exists>bk. parse_all b file (book_handler b) (book_for loc) = Inr (session_outcome file, bk) \<and>
    (\<forall>sd p. queue_at (side_levels sd bk) p =
       spec_queue sd p (sp_orders (spec_run loc (session_messages file) spec_initial))) \<and>
    book_stats bk = sp_stats (spec_run loc (session_messages file) spec_initial) \<and> check_rep bk"
proof -
  obtain bk where run: "fold_run (deliver (book_handler b)) (session_messages file) (book_for loc) = Inr bk"
    and rep: "represents loc bk (spec_run loc (session_messages file) spec_initial)"
    using run_represents [OF represents_initial assms(2)] by blast
  have "check_rep bk" using represents_rep_ok [OF rep] check_rep_iff by simp
  with rep run show ?thesis
    by (auto simp: parse_all_deliver [OF assms(1)] represents_def)
qed

theorem book_implements_spec_witness:
  "\<exists>bk. parse_all Debug sample_file (book_handler Debug) (book_for 5) =
      Inr (session_outcome sample_file, bk) \<and>
    queue_at (bids bk) 10 = [(2, 30)] \<and> queue_at (bids bk) 11 = [(4, 60)] \<and> check_rep bk"
proof -
  obtain bk where run: "parse_all Debug sample_file (book_handler Debug) (book_for 5) =
      Inr (session_outcome sample_file, bk)"
    and queues: "\<forall>sd p. queue_at (side_levels sd bk) p =
      spec_queue sd p (sp_orders (spec_run 5 sample_messages spec_initial))"
    and "check_rep bk"
    using book_implements_spec [of Debug sample_file 5] sample_admits_all by auto
  moreover have "queue_at (bids bk) 10 = [(2, 30)]" "queue_at (bids bk) 11 = [(4, 60)]"
    using queues [rule_format, of Buy] by (simp_all add: sample_eval spec_queue_def)
  ultimately show ?thesis by blast
qed

text \<open>
  C2. What the queries of the book return after such a file: the best bid is the highest
  price with a resting buy order and the best ask the lowest price with a resting sell
  order, each with the shares resting there; the order count and the level counts are the
  numbers of resting orders and of prices with orders.
\<close>

theorem book_queries:
  assumes "passes_asserts b file"
    and "spec_admits_all loc spec_initial (session_messages file)"
  shows "\<exists>bk. parse_all b file (book_handler b) (book_for loc) = Inr (session_outcome file, bk) \<and>
    (let ab = sp_orders (spec_run loc (session_messages file) spec_initial) in
       best_bid bk = spec_best_bid ab \<and> best_ask bk = spec_best_ask ab \<and>
       order_count bk = length ab \<and>
       bid_level_count bk = card (spec_prices Buy ab) \<and>
       ask_level_count bk = card (spec_prices Sell ab))"
proof -
  obtain bk where run: "fold_run (deliver (book_handler b)) (session_messages file) (book_for loc) = Inr bk"
    and rep: "represents loc bk (spec_run loc (session_messages file) spec_initial)"
    using run_represents [OF represents_initial assms(2)] by blast
  show ?thesis
    using run represents_best_bid [OF rep] represents_best_ask [OF rep]
      represents_order_count [OF rep] represents_level_counts [OF rep]
    by (simp add: parse_all_deliver [OF assms(1)])
qed

theorem book_queries_witness:
  "\<exists>bk. parse_all Release sample_file (book_handler Release) (book_for 5) =
      Inr (session_outcome sample_file, bk) \<and>
    best_bid bk = Some \<lparr>bl_price = 11, bl_shares = 60\<rparr> \<and> best_ask bk = None \<and> order_count bk = 2"
proof -
  obtain bk where "parse_all Release sample_file (book_handler Release) (book_for 5) =
      Inr (session_outcome sample_file, bk)"
    "best_bid bk = spec_best_bid (sp_orders (spec_run 5 sample_messages spec_initial))"
    "best_ask bk = spec_best_ask (sp_orders (spec_run 5 sample_messages spec_initial))"
    "order_count bk = length (sp_orders (spec_run 5 sample_messages spec_initial))"
    using book_queries [of Release sample_file 5] sample_admits_all by (auto simp: Let_def)
  moreover have "sp_orders (spec_run 5 sample_messages spec_initial) =
      [\<lparr>so_reference = 2, so_side = Buy, so_price = 10, so_shares = 30\<rparr>,
       \<lparr>so_reference = 4, so_side = Buy, so_price = 11, so_shares = 60\<rparr>]" (is "_ = ?ab")
    by (simp add: sample_eval)
  moreover have "spec_prices Buy ?ab = {10, 11}" "spec_prices Sell ?ab = {}"
    by (simp_all add: spec_prices_eval)
  ultimately show ?thesis
    by (auto simp: spec_best_bid_def spec_best_ask_def Let_def spec_depth_def spec_queue_def max_def)
qed

text \<open>
  C3. The share totals of the best levels are exact on an admitted feed: with at most
  \<open>2 ^ 32\<close> messages their 64 bits cannot wrap, so on either side the total is the sum of the resting shares as a number.
\<close>

theorem best_totals_exact:
  assumes "spec_admits_all loc spec_initial ms" and "length ms \<le> 2 ^ 32"
    and "fold_run (deliver (book_handler b)) ms (book_for loc) = Inr bk"
    and "(if sd = Buy then best_bid bk else best_ask bk) = Some level" and "sd \<in> {Buy, Sell}"
  shows "unat (bl_shares level) =
    spec_depth sd (bl_price level) (sp_orders (spec_run loc ms spec_initial))"
proof -
  have "represents loc bk (spec_run loc ms spec_initial)"
    using run_represents [OF represents_initial assms(1), of b] assms(3) by auto
  moreover have "length (sp_orders (spec_run loc ms spec_initial)) \<le> 2 ^ 32"
    using length_spec_run [of loc ms spec_initial] assms(2) by (simp add: spec_initial_def)
  moreover have "best_level (side_levels sd bk) = Some level"
    using assms(4,5) by (auto simp: best_bid_def best_ask_def split: if_splits)
  ultimately show ?thesis by (simp add: best_size_exact)
qed

theorem best_totals_exact_witness:
  "\<exists>bk level. fold_run (deliver (book_handler Debug)) sample_messages (book_for 5) = Inr bk \<and>
     best_bid bk = Some level \<and>
     unat (bl_shares level) =
       spec_depth Buy (bl_price level) (sp_orders (spec_run 5 sample_messages spec_initial))"
proof -
  obtain bk where run: "fold_run (deliver (book_handler Debug)) sample_messages (book_for 5) = Inr bk"
    and rep: "represents 5 bk (spec_run 5 sample_messages spec_initial)"
    using run_represents [OF represents_initial sample_admits_all, of Debug] by blast
  have "11 \<in> spec_prices Buy (sp_orders (spec_run 5 sample_messages spec_initial))"
    by (simp add: sample_eval spec_prices_eval)
  then obtain level where level: "best_bid bk = Some level"
    unfolding represents_best_bid [OF rep] spec_best_bid_def Let_def by (metis empty_iff)
  have "length sample_messages \<le> 2 ^ 32" by (simp add: sample_lists)
  from best_totals_exact [OF sample_admits_all this run, of Buy level] level run
  show ?thesis by auto
qed

text \<open>
  C4. Which feeds are admitted, and what rests after them, said on the messages alone. Give
  every order reference an account: an Add or a Replace opens it with its shares, executions
  and cancellations take from it, a deletion or a replacement closes it, which leaves nothing.
  A feed is orderly when, of the messages of the book's locate, every Add and every Replace
  carries at least one share and names a reference that no message before it opened; every
  execution or cancellation takes no more than its account holds; every deletion names a
  reference that was opened before; and every replacement names an original whose account
  still holds shares. On an orderly feed the abstract book admits the file, and what rests
  under every reference of the C++ book is the balance of its account.
\<close>

theorem orderly_feed_accounts:
  assumes "passes_asserts b file" and "orderly loc (session_messages file)"
  shows "spec_admits_all loc spec_initial (session_messages file) \<and>
    (\<exists>bk. parse_all b file (book_handler b) (book_for loc) = Inr (session_outcome file, bk) \<and>
       check_rep bk \<and>
       (\<forall>ref. map_option unat (resting_shares bk ref) =
          (let left = outstanding loc (session_messages file) ref
           in if left = 0 then None else Some left)) \<and>
       order_count bk = card {ref. outstanding loc (session_messages file) ref \<noteq> 0})"
proof -
  note orderly = orderly_run [OF assms(2)]
  obtain bk where run: "fold_run (deliver (book_handler b)) (session_messages file) (book_for loc) = Inr bk"
    and rep: "represents loc bk (spec_run loc (session_messages file) spec_initial)"
    using run_represents [OF represents_initial orderly(1)] by blast
  have "check_rep bk" using represents_rep_ok [OF rep] check_rep_iff by simp
  then show ?thesis
    using orderly(1) run represents_accounts [OF rep orderly(2)]
    by (simp add: parse_all_deliver [OF assms(1)] Let_def)
qed

theorem orderly_feed_accounts_witness:
  "\<exists>bk. parse_all Debug sample_file (book_handler Debug) (book_for 5) =
      Inr (session_outcome sample_file, bk) \<and>
    map_option unat (resting_shares bk 2) = Some 30 \<and> resting_shares bk 1 = None"
proof -
  have "orderly 5 (session_messages sample_file)" by (simp add: sample_ledger)
  from orderly_feed_accounts [OF sample_asserts this, of Debug]
  obtain bk where run: "parse_all Debug sample_file (book_handler Debug) (book_for 5) =
      Inr (session_outcome sample_file, bk)"
    and accounts: "\<And>ref. map_option unat (resting_shares bk ref) =
      (let left = outstanding 5 sample_messages ref in if left = 0 then None else Some left)"
    by auto
  have "outstanding 5 sample_messages 2 = 30" "outstanding 5 sample_messages 1 = 0"
    by (simp_all add: sample_ledger)
  with accounts [of 2] accounts [of 1] run show ?thesis by simp
qed

text \<open>
  C5. The representation check is an invariant. From a book that passes \<open>check_rep\<close>, every
  message the book may admit (a new reference is not resting, no more is taken than rests)
  is handled without stopping, in either build, and the book passes \<open>check_rep\<close> again.
\<close>

theorem check_rep_preserved:
  assumes "heap_ok bk" and "check_rep bk" and "admissible bk m"
  shows "\<exists>bk'. deliver (book_handler b) m bk = Inr bk' \<and> check_rep bk' \<and> heap_ok bk'"
proof -
  obtain bk' where "deliver (book_handler b) m bk = Inr bk'" "rep_ok bk'"
    using deliver_rep_ok assms check_rep_iff by blast
  then show ?thesis using check_rep_iff by auto
qed

theorem check_rep_preserved_witness:
  "\<exists>bk'. deliver (book_handler Debug) (AddOrder (sample_add 5 4 1 Buy 100 10)) (book_for 5) = Inr bk' \<and>
     check_rep bk' \<and> heap_ok bk'"
proof -
  have rep: "rep_ok (book_for 5)" by (simp add: book_for_def rep_ok_initial)
  then have "heap_ok (book_for 5)" "check_rep (book_for 5)" by (simp_all add: check_rep_iff)
  moreover have "admissible (book_for 5) (AddOrder (sample_add 5 4 1 Buy 100 10))"
    by (simp add: fresh_def book_for_def initial_book_def table_find_def)
  ultimately show ?thesis by (rule check_rep_preserved)
qed

text \<open>
  C6. \<open>check_rep\<close> decides the representation invariant: on well-formed containers it holds
  exactly when no level is empty, every total is the sum of its queue, and the lookup table
  and the queues name the same orders at the same places.
\<close>

theorem check_rep_decides:
  assumes "heap_ok bk"
  shows "check_rep bk \<longleftrightarrow>
    (\<forall>sd p l. map_of (side_levels sd bk) p = Some l \<longrightarrow>
       pl_orders l \<noteq> [] \<and> pl_total_shares l = level_shares l) \<and>
    (\<forall>ref loc. table_find ref (orders bk) = Some loc \<longleftrightarrow>
       (\<exists>r. rests_at (side_levels (ol_side loc) bk) (ol_price loc) (ol_position loc) r \<and>
            ro_order_reference r = ref))"
  using assms check_rep_iff [OF assms]
  by (simp add: rep_ok_def side_levels_ok_def level_ok_def linked_def)

theorem check_rep_decides_witness:
  "check_rep sample_book \<longleftrightarrow>
    (\<forall>sd p l. map_of (side_levels sd sample_book) p = Some l \<longrightarrow>
       pl_orders l \<noteq> [] \<and> pl_total_shares l = level_shares l) \<and>
    (\<forall>ref loc. table_find ref (orders sample_book) = Some loc \<longleftrightarrow>
       (\<exists>r. rests_at (side_levels (ol_side loc) sample_book) (ol_price loc) (ol_position loc) r \<and>
            ro_order_reference r = ref))"
  by (rule check_rep_decides [OF rep_ok_heap [OF sample_book_rep_ok]])

text \<open>
  C7. What holds after any feed, with no promise of the exchange. For every contents of the
  file, in either build, a run of the book stops at an assertion of a debug build or returns
  a book with the locate it was given, in which no level is empty, every entry of the lookup
  table leads to an order of its reference, on its side, at its price and in its node, and
  \<open>best_bid\<close> and \<open>best_ask\<close> are right: they are absent when no order rests on their side, and
  else name a price with a queue and the share total kept there, such that no order rests at
  a higher bid or a lower ask. (That the totals are also the sums of the queues, and that the
  table leads to every order, needs an admitted feed.)
\<close>

theorem book_sound_for_any_file:
  shows "case parse_all b file (book_handler b) (book_for loc) of
      Inl e \<Rightarrow> b = Debug \<and> e = AssertFailed
    | Inr (out, bk) \<Rightarrow>
        out = session_outcome file \<and> locate bk = loc \<and>
        (\<forall>sd p l. map_of (side_levels sd bk) p = Some l \<longrightarrow> pl_orders l \<noteq> []) \<and>
        (\<forall>ref k. table_find ref (orders bk) = Some k \<longrightarrow>
           (\<exists>r. rests_at (side_levels (ol_side k) bk) (ol_price k) (ol_position k) r \<and>
                ro_order_reference r = ref)) \<and>
        best_at (\<lambda>p q. q < p) (bids bk) (best_bid bk) \<and> best_at (<) (asks bk) (best_ask bk)"
proof -
  have "sound_book loc (book_for loc)" by (simp add: book_for_def sound_book_initial)
  note safe = book_sound_safe.session_safe [OF this, of b "file"]
  show ?thesis
  proof (cases "parse_all b file (book_handler b) (book_for loc)")
    case (Inl e)
    then show ?thesis using safe by (simp add: safe_result_def)
  next
    case (Inr r)
    then obtain bk where r: "r = (session_outcome file, bk)" and sound: "sound_book loc bk"
      using safe by (auto simp: safe_result_def)
    show ?thesis
      using sound sound_book_best [OF sound] unfolding Inr r sound_book_def
      by (simp add: levels_filled_def anchored_def bid_before_def [abs_def] ask_before_def [abs_def])
  qed
qed

theorem book_sound_for_any_file_witness:
  "\<exists>out bk. parse_all Release (encode_session unruly_messages) (book_handler Release) (book_for 5) =
      Inr (out, bk) \<and> orders bk = [] \<and>
    queue_at (bids bk) 10 = [] \<and> queue_at (bids bk) 11 = [(1, 50)] \<and>
    best_at (\<lambda>p q. q < p) (bids bk) (best_bid bk) \<and> \<not> check_rep bk"
proof -
  have "parse_all Release (encode_session unruly_messages) (book_handler Release) (book_for 5) =
      Inr (session_outcome (encode_session unruly_messages), unruly_book)"
    using unruly_run by (simp add: parse_all_deliver session_messages_encode unruly_wf)
  with book_sound_for_any_file [of Release "encode_session unruly_messages" 5]
  show ?thesis by (simp add: unruly_book_state)
qed

text \<open>
  C8. Memory safety, with no leak. Whatever the operating system answers, for every contents
  of the file and every argument vector, the release build of \<open>book_replay\<close> ends with an exit
  code and its output, and the kernel holds the descriptors and mappings it held before: no
  message sequence makes the tool follow a dead list iterator, read outside a record or
  dereference a missing level, and no error path keeps a file open.
\<close>

theorem book_replay_release_returns:
  "\<exists>out. book_replay_process Release s argv k = Inr (out, k)"
  using book_replay_program_safe [of Release "file_contents s k" argv]
  by (auto simp: safe_result_Release book_replay_process_program)

text \<open>
  C9. The debug build of \<open>book_replay\<close> only ever stops at an assertion, and when it does not
  stop, its exit code and both of its outputs are those of the release build.
\<close>

theorem book_replay_builds_agree:
  "book_replay_process Debug s argv k = Inl AssertFailed \<or>
   (\<exists>out. book_replay_process Debug s argv k = Inr (out, k) \<and>
      book_replay_process Release s argv k = Inr (out, k))"
  using book_replay_program_safe [of Debug "file_contents s k" argv]
    book_replay_program_agrees [of "file_contents s k" argv]
  by (auto simp: book_replay_process_program safe_result_def agrees_run_def)

section \<open>The replay tool and the independent reference\<close>

text \<open>
  C10. The report of \<open>book_replay\<close>. When the symbol is announced with a locate other than 0,
  no message for locate 0 touches the book before, and the feed after the announcement is
  admitted, the standard output is the text of the report of the abstract book run on the
  messages after the announcement, the standard error is empty, and the exit code tells
  whether the file framed completely.
\<close>

theorem book_replay_report:
  assumes "open_file path = Inr file" and "passes_asserts b file"
    and "session_messages file = pre @ StockDirectory d # rest"
    and "\<forall>m \<in> set pre. \<not> announces symbol m \<and> \<not> concerns 0 m"
    and "trim (sd_stock d) = symbol" and "stock_locate (sd_header d) = loc" and "loc \<noteq> 0"
    and "spec_admits_all loc spec_initial rest"
  shows "book_replay_program b open_file [program, path, symbol] =
    Inr (if complete (session_outcome file) then 0 else 1,
         replay_text (spec_report symbol loc (spec_run loc rest spec_initial)
           (session_outcome file)), [])"
  by (rule book_replay_program_report, rule book_replay_reports [where pre = pre and d = d])
    (use assms in \<open>simp_all add: waiting_def\<close>)

theorem book_replay_report_witness:
  "\<exists>report. book_replay_program Debug (\<lambda>_. Inr sample_file) [''book_replay'', ''f'', ''AAPL''] =
      Inr (0, replay_text report, []) \<and> rr_locate report = 5 \<and> rr_resting_orders report = 2 \<and>
      replaces (rr_stats report) = 1"
proof -
  have "book_replay_program Debug (\<lambda>_. Inr sample_file) [''book_replay'', ''f'', ''AAPL''] =
    Inr (if complete (session_outcome sample_file) then 0 else 1,
         replay_text (spec_report ''AAPL'' 5 (spec_run 5 sample_after spec_initial)
           (session_outcome sample_file)), [])"
    by (rule book_replay_report [where pre = sample_before and d = sample_announcement])
      (use sample_waiting sample_announces in
        \<open>simp_all add: sample_messages_def waiting_def sample_locate sample_admits\<close>)
  then show ?thesis
    by (intro exI [of _ "spec_report ''AAPL'' 5 (spec_run 5 sample_after spec_initial)
          (session_outcome sample_file)"])
      (simp add: complete_def sample_outcome spec_report_def, simp add: sample_eval)
qed

text \<open>
  C11. An announcement is never missed. If any Stock Directory message of the file names the
  symbol, the release build prints a report for it, whatever else the file holds, and its
  exit code tells whether the file framed to its last byte.
\<close>

theorem book_replay_announced:
  assumes "open_file path = Inr file" and "\<exists>m \<in> set (session_messages file). announces symbol m"
  shows "\<exists>r. book_replay_program Release open_file [program, path, symbol] =
      Inr (if complete (session_outcome file) then 0 else 1, replay_text r, []) \<and>
    rr_symbol r = symbol"
proof -
  obtain code report where run: "book_replay_main Release open_file [program, path, symbol] = Inr (code, report)"
    using book_replay_main_safe [of Release open_file "[program, path, symbol]"]
    by (auto simp: safe_result_Release)
  from book_replay_main_resolves [OF assms run] obtain r where
    r: "report = Some r" "rr_symbol r = symbol" "code = 0 \<longleftrightarrow> complete (session_outcome file)"
    by blast
  have "code = (if complete (session_outcome file) then 0 else 1)"
    using run r(1,3) by (auto simp: book_replay_main_def bind_run_Inr_iff assms(1) split: if_splits)
  then show ?thesis using book_replay_program_report [OF run [unfolded r(1)]] r(2) by blast
qed

theorem book_replay_announced_witness:
  "\<exists>r. book_replay_program Release (\<lambda>_. Inr sample_file) [''book_replay'', ''f'', ''AAPL''] =
      Inr (0, replay_text r, []) \<and> rr_symbol r = ''AAPL''"
proof -
  have "\<exists>m \<in> set (session_messages sample_file). announces ''AAPL'' m"
    using sample_announces by (simp add: sample_messages_def)
  from book_replay_announced [of "\<lambda>_. Inr sample_file" "''f''" sample_file "''AAPL''" "''book_replay''", OF refl this]
  show ?thesis by (simp add: sample_outcome complete_def)
qed

text \<open>
  C12. A symbol that no Stock Directory message announces: the tool says so on the standard
  error, prints nothing on the standard output and exits with 1, if no message for locate 0
  touches the book. The reference, given a symbol without padding, does the same.
\<close>

theorem book_replay_not_announced:
  assumes "open_file path = Inr file" and "passes_asserts b file"
    and "\<forall>m \<in> set (session_messages file). \<not> announces symbol m \<and> \<not> concerns 0 m"
  shows "book_replay_program b open_file [program, path, symbol] =
    Inr (1, [], ''book_replay: '' @ symbol @
      '' was never announced in a Stock Directory message'' @ newline) \<and>
   (trim symbol = symbol \<longrightarrow> ref_program symbol file =
      Some (1, [], ''reference_book: '' @ symbol @
        '' was never announced in a Stock Directory message'' @ newline))"
  using book_replay_program_unresolved [where open_file = open_file and path = path, OF assms(1,2)]
    ref_program_unresolved [of "file" symbol] assms(3)
  by (simp add: waiting_def)

theorem book_replay_not_announced_witness:
  "book_replay_program Debug (\<lambda>_. Inr sample_file) [''book_replay'', ''f'', ''MSFT''] =
     Inr (1, [], ''book_replay: '' @ ''MSFT'' @
       '' was never announced in a Stock Directory message'' @ newline) \<and>
   ref_program ''MSFT'' sample_file = Some (1, [], ''reference_book: '' @ ''MSFT'' @
       '' was never announced in a Stock Directory message'' @ newline)"
proof -
  have "\<forall>m \<in> set (session_messages sample_file). \<not> announces ''MSFT'' m \<and> \<not> concerns 0 m"
    by (simp add: sample_lists sample_defs concerns_def sample_trim)
  from book_replay_not_announced [of "\<lambda>_. Inr sample_file" "''f''" sample_file Debug "''MSFT''" "''book_replay''",
      OF refl sample_asserts this]
  show ?thesis by (simp add: trim_def)
qed

text \<open>
  C13. \<open>book_replay\<close> agrees with \<open>reference_book.py\<close>, which shares no code with it, keeps no
  queues and counts with unbounded integers. On an admitted feed of at most \<open>2 ^ 32\<close> messages
  whose orders carry shares, both exit with the same code, and their standard outputs are
  the same text, except that the C++ tool adds its framing line there when the file is cut;
  the reference then names the same offset on its standard error.
\<close>

theorem book_replay_matches_reference:
  assumes "open_file path = Inr file" and "passes_asserts b file"
    and "session_messages file = pre @ StockDirectory d # rest"
    and "\<forall>m \<in> set pre. \<not> announces symbol m \<and> \<not> concerns 0 m"
    and "trim (sd_stock d) = symbol" and "trim symbol = symbol"
    and "stock_locate (sd_header d) = loc" and "loc \<noteq> 0"
    and "spec_admits_all loc spec_initial rest" and "\<forall>m \<in> set rest. funded loc m"
    and "length (session_messages file) \<le> 2 ^ 32"
  shows "\<exists>code out error. ref_program symbol file = Some (code, out, ref_stopped_text error) \<and>
    book_replay_program b open_file [program, path, symbol] =
      Inr (code, out @ stop_text (stopped_of (session_outcome file)), []) \<and>
    same_stop (session_outcome file) error"
proof -
  have waits: "\<forall>m \<in> set pre. waiting symbol m" using assms(4) by (simp add: waiting_def)
  have named: "announces symbol (StockDirectory d)" using assms(5) by simp
  obtain out error where ref: "ref_program symbol file =
      Some (if complete (session_outcome file) then 0 else 1, out, ref_stopped_text error)"
    and stop: "same_stop (session_outcome file) error"
    and printed: "replay_text (spec_report symbol loc (spec_run loc rest spec_initial)
        (session_outcome file)) = out @ stop_text (stopped_of (session_outcome file))"
    using ref_program_prints [OF assms(3) waits named assms(7,9,10,6,11)] by blast
  have "book_replay_main b open_file [program, path, symbol] =
      Inr (if complete (session_outcome file) then 0 else 1,
         Some (spec_report symbol loc (spec_run loc rest spec_initial) (session_outcome file)))"
    by (rule book_replay_reports [where open_file = open_file and path = path,
          OF assms(1,2,3) waits named assms(7,8,9)])
  from book_replay_program_report [OF this] ref stop show ?thesis by (auto simp: printed)
qed

theorem book_replay_matches_reference_witness:
  "\<exists>code out error. ref_program ''AAPL'' sample_file = Some (code, out, ref_stopped_text error) \<and>
     book_replay_program Release (\<lambda>_. Inr sample_file) [''book_replay'', ''f'', ''AAPL''] =
       Inr (code, out @ stop_text (stopped_of (session_outcome sample_file)), []) \<and>
     same_stop (session_outcome sample_file) error"
proof (rule book_replay_matches_reference [where pre = sample_before and d = sample_announcement
      and rest = sample_after and loc = 5])
  show "length (session_messages sample_file) \<le> 2 ^ 32" by (simp add: sample_lists)
qed (use sample_waiting sample_announces sample_funded in
    \<open>simp_all add: sample_messages_def waiting_def sample_locate sample_admits sample_trim\<close>)

text \<open>
  C14. The report loses nothing: for symbols without a newline, two reports have the same text
  only if they are the same in every value, so comparing the outputs compares the books'
  tallies, sizes and best levels.
\<close>

theorem report_text_determines:
  assumes "single_line (rr_symbol r)" and "single_line (rr_symbol r')"
  shows "replay_text r = replay_text r' \<longleftrightarrow> r = r'"
  using replay_text_determines [OF assms] by blast

theorem report_text_determines_witness:
  "replay_text (report_of ''AAPL'' sample_book (session_outcome [])) \<noteq>
     replay_text (report_of ''AAPL'' (book_for 5) (session_outcome []))"
  by (subst report_text_determines)
    (simp_all add: report_of_def sample_book_def book_eval order_count_def)

section \<open>Single messages\<close>

text \<open>
  C15. The book sees its own symbol only. What a book becomes depends on the order and trade
  messages of its locate alone: two files in which these are the same, in the same order,
  leave the book in the same state (or stop it with the same fault), whatever other messages
  they hold and however the symbols are interleaved.
\<close>

theorem book_sees_only_its_symbol:
  assumes "passes_asserts b file" and "passes_asserts b file'"
    and "own_messages (locate bk) (session_messages file) =
      own_messages (locate bk) (session_messages file')"
  shows "map_run snd (parse_all b file (book_handler b) bk) =
    map_run snd (parse_all b file' (book_handler b) bk)"
  unfolding parse_own_messages [OF assms(1)] parse_own_messages [OF assms(2)] assms(3)
  by (simp add: map_run_def split: sum.split)

theorem book_sees_only_its_symbol_witness:
  "map_run snd (parse_all Debug sample_file (book_handler Debug) (book_for 5)) =
   map_run snd (parse_all Debug (encode_session sample_after) (book_handler Debug) (book_for 5))"
proof (rule book_sees_only_its_symbol)
  have "list_all wf_message sample_after" "list_all names_side sample_after"
    using sample_wf sample_sides by (simp_all add: sample_messages_def)
  then show "passes_asserts Debug (encode_session sample_after)"
    and "own_messages (locate (book_for 5)) (session_messages sample_file) =
      own_messages (locate (book_for 5)) (session_messages (encode_session sample_after))"
    by (simp_all add: passes_asserts_encode session_messages_encode)
      (simp add: own_messages_def sample_lists sample_defs concerns_def book_for_def)
qed simp

text \<open>
  C16. A replacement loses time priority: the original order leaves its queue, the new order
  stands at the end of the queue of the new price on the original's side, and no other
  order moves, even when the price does not change.
\<close>

theorem replace_loses_priority:
  assumes "rep_ok bk" and "stock_locate (ore_header m) = locate bk"
    and "table_find (ore_original_order_reference m) (orders bk) = Some l"
  shows "\<exists>bk'. book_replace b m bk = Inr bk' \<and>
    (\<forall>sd p. queue_at (side_levels sd bk') p =
       filter (\<lambda>(r, _). r \<noteq> ore_original_order_reference m) (queue_at (side_levels sd bk) p) @
       (if sd = ol_side l \<and> p = ore_price m then [(ore_new_order_reference m, ore_shares m)] else []))"
  using assms by (rule book_replace_queue)

theorem replace_loses_priority_witness:
  "\<exists>bk'. book_replace Debug (sample_replace 5 10 1 4 60 10) sample_book = Inr bk' \<and>
     queue_at (bids bk') 10 = [(2, 50), (4, 60)]"
proof -
  have "table_find (ore_original_order_reference (sample_replace 5 10 1 4 60 10)) (orders sample_book) =
      Some \<lparr>ol_side = Buy, ol_price = 10, ol_position = 0\<rparr>"
    by (simp add: table_find_def sample_book_def sample_replace_def)
  from replace_loses_priority [OF sample_book_rep_ok _ this, of Debug]
  obtain bk' where "book_replace Debug (sample_replace 5 10 1 4 60 10) sample_book = Inr bk'"
    and "\<forall>sd p. queue_at (side_levels sd bk') p =
       filter (\<lambda>(r, _). r \<noteq> 1) (queue_at (side_levels sd sample_book) p) @
       (if sd = Buy \<and> p = 10 then [(4, 60)] else [])"
    by (auto simp: sample_replace_def sample_header_def sample_book_def)
  from this(1) this(2) [rule_format, of Buy 10] show ?thesis by (simp add: sample_book_queue)
qed

text \<open>
  C17. An execution shrinks its order where it stands and removes it when nothing is left;
  every other order keeps its place, and the execution is counted.
\<close>

theorem execution_keeps_priority:
  assumes "rep_ok bk" and "stock_locate (oe_header m) = locate bk"
    and "may_reduce bk (oe_order_reference m) (oe_executed_shares m)"
  shows "\<exists>bk'. book_executed b m bk = Inr bk' \<and>
    (\<forall>sd p. queue_at (side_levels sd bk') p =
       edit_queue (oe_order_reference m) (left_after False (oe_executed_shares m))
         (queue_at (side_levels sd bk) p)) \<and>
    book_stats bk' = (book_stats bk)\<lparr>executions := executions (book_stats bk) + 1\<rparr>"
  using assms by (rule book_executed_queue)

theorem execution_keeps_priority_witness:
  "\<exists>bk'. book_executed Debug (sample_execute 5 8 1 40) sample_book = Inr bk' \<and>
     queue_at (bids bk') 10 = [(1, 60), (2, 50)]"
proof -
  have "may_reduce sample_book (oe_order_reference (sample_execute 5 8 1 40))
      (oe_executed_shares (sample_execute 5 8 1 40))"
    by (simp add: may_reduce_def resting_shares_def table_find_def sample_book_def sample_execute_def)
  from execution_keeps_priority [OF sample_book_rep_ok _ this, of Debug]
  obtain bk' where "book_executed Debug (sample_execute 5 8 1 40) sample_book = Inr bk'"
    and "\<forall>sd p. queue_at (side_levels sd bk') p =
       edit_queue 1 (left_after False 40) (queue_at (side_levels sd sample_book) p)"
    by (auto simp: sample_execute_def sample_header_def sample_book_def)
  from this(1) this(2) [rule_format, of Buy 10] show ?thesis
    by (simp add: sample_book_queue edit_queue_def left_after_def)
qed

section \<open>Parsing a session\<close>

text \<open>
  C18. Parsing is faithful to the bytes. When \<open>parse_all\<close> returns, the buffer is the encoding
  of a list of well-formed messages followed by a rest; the handler received exactly those
  messages in that order; the counts are theirs; and the error is the fault at the head of
  the rest, at its offset, or there is none and no rest.
\<close>

theorem parse_all_sound:
  assumes "parse_all b file h s = Inr (out, s')"
  shows "\<exists>ms rest. file = encode_session ms @ rest \<and> list_all wf_message ms \<and>
    fold_run (deliver h) ms s = Inr s' \<and> messages out = length ms \<and>
    bytes_consumed out = length (encode_session ms) \<and>
    (if rest = [] then frame_error out = None
     else \<exists>e c. head_fault rest = Some (e, c) \<and> frame_error out = Some e \<and>
       error_offset out = length (encode_session ms) \<and> error_type out = c)"
proof -
  let ?rest = "snd (split_frames file)"
  have encoded: "encode_session (session_messages file) = concat (map framed (session_records file))"
    using session_records_sound(2) [of "file"]
    by (simp add: encode_session_def session_messages_def comp_def list_all_iff encode_decoded cong: map_cong)
  have "file": "file = encode_session (session_messages file) @ ?rest"
    using session_records_sound(1) [of "file"] by (simp only: encoded)
  then have consumed: "length file - length ?rest = length (encode_session (session_messages file))"
    by (metis add_diff_cancel_right' length_append)
  have wf: "list_all wf_message (session_messages file)"
    using wf_session_messages by (simp add: list_all_iff)
  have "if ?rest = [] then frame_error out = None
     else \<exists>e c. head_fault ?rest = Some (e, c) \<and> frame_error out = Some e \<and>
       error_offset out = length (encode_session (session_messages file)) \<and> error_type out = c"
    using session_records_sound(3) [of "file"] consumed
    by (auto simp: parse_all_Inr(2) [OF assms] session_outcome_def split_outcome_def Let_def
        split: prod.split option.split)
  moreover have "messages out = length (session_messages file)"
    "bytes_consumed out = length (encode_session (session_messages file))"
    using consumed by (simp_all add: parse_all_Inr(2) [OF assms] bytes_consumed_session_outcome)
  ultimately show ?thesis using "file" wf parse_all_Inr(3) [OF assms] by blast
qed

theorem parse_all_sound_witness:
  "\<exists>ms rest. sample_file = encode_session ms @ rest \<and> list_all wf_message ms \<and> length ms = 11"
proof -
  have "parse_all Debug sample_file (census_handler Debug) initial_census =
      Inr (session_outcome sample_file, census_of sample_messages)"
    by (simp add: parse_census sample_length)
  from parse_all_sound [OF this] show ?thesis by (auto simp: sample_outcome)
qed

text \<open>
  C19. Parsing is complete: the encoding of any list of well-formed messages with named sides
  parses to the end, in either build, with any handler, and the handler receives exactly the
  messages encoded.
\<close>

theorem parse_all_complete:
  assumes "list_all wf_message ms" and "b = Debug \<longrightarrow> list_all names_side ms"
  shows "parse_all b (encode_session ms) h s =
    map_run (Pair \<lparr>messages = length ms, bytes_consumed = length (encode_session ms),
        frame_error = None, error_offset = 0, error_type = CHR 0x00\<rparr>)
      (fold_run (deliver h) ms s)"
proof -
  have "session_outcome (encode_session ms) = \<lparr>messages = length ms,
      bytes_consumed = length (encode_session ms), frame_error = None, error_offset = 0,
      error_type = CHR 0x00\<rparr>"
    by (simp add: session_outcome_def split_outcome_def split_frames_encode_session [OF assms(1)])
  then show ?thesis
    using parse_all_deliver [of b "encode_session ms" h s] passes_asserts_encode [OF assms(1), of b] assms
    by (simp add: session_messages_encode)
qed

theorem parse_all_complete_witness:
  "parse_all Debug (encode_session sample_messages) (book_handler Debug) (book_for 5) =
     map_run (Pair \<lparr>messages = 11, bytes_consumed = length (encode_session sample_messages),
         frame_error = None, error_offset = 0, error_type = CHR 0x00\<rparr>)
       (fold_run (deliver (book_handler Debug)) sample_messages (book_for 5))"
proof -
  have "length sample_messages = 11" by (simp add: sample_lists)
  then show ?thesis
    using parse_all_complete [OF sample_wf, of Debug "book_handler Debug" "book_for 5"]
    by (simp add: sample_sides)
qed

text \<open>
  C20. Decoding inverts encoding: the record of a well-formed message decodes to that
  message, except that a debug build stops at a side byte that names no side.
\<close>

theorem decode_encode:
  assumes "wf_message m"
  shows "decode_message b (msg_type (message_header m)) (encode m) =
    (if b = Debug \<and> \<not> names_side m then Inl AssertFailed else Inr m)"
  using decode_message_decoded [of "encode m" b] valid_encode [OF assms]
    decoded_encode [OF assms] passes_side_check_encode [OF assms]
  by simp

theorem decode_encode_witness:
  "decode_message Debug CHR ''A'' (encode (AddOrder (sample_add 5 4 1 (UnnamedSide CHR ''X'') 100 10))) =
     Inl AssertFailed"
proof -
  have "wf_message (AddOrder (sample_add 5 4 1 (UnnamedSide CHR ''X'') 100 10))"
    by (simp add: sample_defs header_ok_def side_ok_def side_of_char_def)
  from decode_encode [OF this, of Debug] show ?thesis by (simp add: sample_defs)
qed

text \<open>
  C21. What the framer hands out: for every buffer and a callback that keeps a log, the
  records in the log have their type byte and exactly the length the specification gives
  that type, their frames are the bytes consumed, in order, and the count is theirs.
\<close>

theorem framer_hands_out_valid_records:
  "\<exists>out log. frame_all file log_record [] = Inr (out, log) \<and>
     list_all (\<lambda>(ty, r). r \<noteq> [] \<and> char_of_byte (hd r) = ty \<and> length r = spec_size ty) log \<and>
     concat (map (\<lambda>(ty, r). framed r) log) = take (bytes_consumed out) file \<and>
     messages out = length log"
proof -
  let ?rs = "session_records file"
  have frames: "concat (map framed ?rs) = take (length file - length (snd (split_frames file))) file"
    using session_records_sound(1) [of "file"]
    by (metis add_diff_cancel_right' append_eq_conv_conj length_append)
  have "frame_all file log_record [] =
      Inr (session_outcome file, map (\<lambda>r. (record_type r, r)) ?rs)"
    by (simp add: frame_all_split deliver_all_log session_outcome_def session_records_def)
  moreover have "list_all (\<lambda>(ty, r). r \<noteq> [] \<and> char_of_byte (hd r) = ty \<and> length r = spec_size ty)
      (map (\<lambda>r. (record_type r, r)) ?rs)"
    using session_records_sound(2) [of "file"]
    by (auto simp: list_all_iff valid_record_def record_type_def)
  ultimately show ?thesis
    using frames bytes_consumed_session_outcome [of "file"] by (simp add: comp_def session_messages_def)
qed

text \<open>
  C22. Framing terminates on every buffer, with any callback that returns, and within a bound:
  each record handed out takes at least 14 bytes of the buffer.
\<close>

theorem framing_terminates:
  assumes "\<And>ty r s. \<exists>s'. on_message ty r s = Inr s'"
  shows "\<exists>out s'. frame_all file on_message s = Inr (out, s') \<and>
    14 * messages out \<le> bytes_consumed out \<and> bytes_consumed out \<le> length file"
  using frame_all_total [of on_message "file" s, OF assms] session_messages_bytes [of "file"]
  by (auto simp: bytes_consumed_session_outcome)

theorem framing_terminates_witness:
  "\<exists>out log. frame_all sample_file log_record [] = Inr (out, log) \<and>
     14 * messages out \<le> bytes_consumed out \<and> bytes_consumed out \<le> length sample_file"
  by (rule framing_terminates) (simp add: log_record_def)

text \<open>
  C23. The framer stops at the first fault and nowhere else: on frames of valid records
  followed by a rest that is empty or starts with a fault, the callback receives exactly the
  records, and the outcome reports the fault's kind at the offset of its length prefix.
\<close>

theorem framer_stops_at_first_fault:
  assumes "list_all valid_record rs" and "rest = [] \<or> head_fault rest \<noteq> None"
  shows "frame_all (concat (map framed rs) @ rest) on_message s =
    map_run (Pair (let n = length (concat (map framed rs)) in
        case (if rest = [] then None else head_fault rest) of
          None \<Rightarrow> \<lparr>messages = length rs, bytes_consumed = n, frame_error = None,
            error_offset = 0, error_type = CHR 0x00\<rparr>
        | Some (e, c) \<Rightarrow> \<lparr>messages = length rs, bytes_consumed = n, frame_error = Some e,
            error_offset = n, error_type = c\<rparr>))
      (deliver_all on_message rs s)"
  by (simp add: frame_all_split split_frames_unique [OF assms] split_outcome_def Let_def
      cong: option.case_cong)

theorem framer_stops_at_first_fault_witness:
  "frame_all (framed (encode (OrderDelete (sample_delete 5 11 3))) @ [0, 19, 68]) log_record [] =
     Inr (\<lparr>messages = 1, bytes_consumed = 21, frame_error = Some TruncatedRecord,
            error_offset = 21, error_type = CHR 0x00\<rparr>,
          [(CHR ''D'', encode (OrderDelete (sample_delete 5 11 3)))])"
proof -
  let ?r = "encode (OrderDelete (sample_delete 5 11 3))"
  have r: "valid_record ?r" "record_type ?r = CHR ''D''"
    using valid_encode [of "OrderDelete (sample_delete 5 11 3)"]
    by (simp_all add: sample_defs header_ok_def)
  have fault: "head_fault [0, 19, 68] = Some (TruncatedRecord, CHR 0x00)"
    by (simp add: head_fault_def be_value_def)
  have "length ?r = 19" by simp
  with framer_stops_at_first_fault [of "[?r]" "[0, 19, 68]" log_record "[]"] r fault
  show ?thesis by (simp add: deliver_all_log)
qed

text \<open>
  C24. Framing can be resumed. A buffer is framed in two pieces exactly as at once: after a piece
  that is complete or stops at a truncated prefix or record, framing goes on with the bytes
  the first piece left over, and counts and offsets add up; after any other fault nothing
  that follows is looked at. So a cut file yields the first messages of the whole.
\<close>

theorem framing_resumes:
  "frame_all (file @ extra) on_message s =
     bind_run (frame_all file on_message s) (\<lambda>(out, s').
       if frame_error out \<in> {None, Some TruncatedPrefix, Some TruncatedRecord}
       then map_run (\<lambda>(out', s'').
            (\<lparr>messages = messages out + messages out',
              bytes_consumed = bytes_consumed out + bytes_consumed out',
              frame_error = frame_error out',
              error_offset = (if frame_error out' = None then 0
                else bytes_consumed out + error_offset out'),
              error_type = error_type out'\<rparr>, s''))
         (frame_all (drop (bytes_consumed out) file @ extra) on_message s')
       else Inr (out, s'))"
  using frame_all_append [of "file" extra on_message s]
  by (simp only: resumable_def resumed_def insert_iff empty_iff simp_thms)

section \<open>Bytes, lengths and decoders\<close>

text \<open>
  C25. The field accessors. Each of them reads the big-endian value of exactly its bytes when
  they lie in the record and nothing otherwise; the 6-byte timestamp is widened, not read
  past its end.
\<close>

theorem field_accessors:
  "(case read_u16 b r i of Inr v \<Rightarrow> i + 2 \<le> length r \<and> unat v = be_value (subspan r i 2)
      | Inl _ \<Rightarrow> length r < i + 2) \<and>
   (case read_u32 b r i of Inr v \<Rightarrow> i + 4 \<le> length r \<and> unat v = be_value (subspan r i 4)
      | Inl _ \<Rightarrow> length r < i + 4) \<and>
   (case read_u48 b r i of Inr v \<Rightarrow> i + 6 \<le> length r \<and> unat v = be_value (subspan r i 6)
      | Inl _ \<Rightarrow> length r < i + 6) \<and>
   (case read_u64 b r i of Inr v \<Rightarrow> i + 8 \<le> length r \<and> unat v = be_value (subspan r i 8)
      | Inl _ \<Rightarrow> length r < i + 8)"
proof -
  have out: "length r < i + n" if "check_bounds b r i n = Inl e" for n e
    using that check_bounds_in [of i n r b] by (cases "i + n \<le> length r") simp_all
  have ok: "i + n \<le> length r" if "check_bounds b r i n = Inr u" for n u
    using that check_bounds_out [of i n r b] by (cases "i + n \<le> length r") simp_all
  have wide: "be_value (0 # 0 # xs) = be_value xs" for xs by (simp add: be_value_def)
  show ?thesis
    unfolding read_u16_def read_u32_def read_u48_def read_u64_def bind_run_def Let_def
    by (intro conjI; (split sum.split, intro conjI allI impI)+)
      (auto split: sum.splits dest!: ok out
        simp: unat_load_big_endian numeral_2_eq_2 wide)
qed

section \<open>The census tool\<close>

text \<open>
  C26. The census of a session: the total and the count of every type are those of the
  messages, the first and last timestamps are theirs (0 when there is none), the backwards
  steps are counted, and the event codes are collected in order.
\<close>

theorem census_counts_messages:
  assumes "length file < 2 ^ 64" and "passes_asserts b file"
  shows "\<exists>c. parse_all b file (census_handler b) initial_census = Inr (session_outcome file, c) \<and>
    message_total c = of_nat (length (session_messages file)) \<and>
    (\<forall>ty. census_count ty c =
       of_nat (length (filter (\<lambda>m. msg_type (message_header m) = ty) (session_messages file)))) \<and>
    backwards_timestamps c = of_nat (descents (timestamps (session_messages file))) \<and>
    first_timestamp_ns c =
      (if session_messages file = [] then 0 else hd (timestamps (session_messages file))) \<and>
    last_timestamp_ns c =
      (if session_messages file = [] then 0 else last (timestamps (session_messages file))) \<and>
    system_events c = concat (map event_code_of (session_messages file))"
  using parse_census [OF assms] by (auto simp: census_count_of) (simp_all add: census_of_def)

theorem census_counts_messages_witness:
  "\<exists>c. parse_all Debug sample_file (census_handler Debug) initial_census =
      Inr (session_outcome sample_file, c) \<and>
    message_total c = 11 \<and> census_count CHR ''A'' c = 5 \<and> system_events c = ''O''"
proof -
  have "length sample_file < 2 ^ 64" by (simp add: sample_length)
  from census_counts_messages [OF this, of Debug]
  obtain c where c: "parse_all Debug sample_file (census_handler Debug) initial_census =
      Inr (session_outcome sample_file, c)"
    "message_total c = of_nat (length sample_messages)"
    "\<forall>ty. census_count ty c =
       of_nat (length (filter (\<lambda>m. msg_type (message_header m) = ty) sample_messages))"
    "system_events c = concat (map event_code_of sample_messages)"
    by auto
  have "message_total c = 11" using c(2) by (simp add: sample_lists)
  moreover have "census_count CHR ''A'' c = 5" using c(3) by (simp add: sample_lists sample_defs)
  moreover have "system_events c = ''O''" using c(4) by (simp add: sample_lists sample_defs)
  ultimately show ?thesis using c(1) by blast
qed

text \<open>
  C27. The two tools agree on one file. Whatever the file holds, the books of all 65536 stock
  locates together account for the census: their adds are the messages of types A and F,
  their executions those of E and C, their cancels, deletes and trades those of X, D and P,
  and no more replaces are tallied than there are messages of type U.
\<close>

theorem books_account_for_census:
  "\<exists>c books. parse_all Release file (census_handler Release) initial_census = Inr (session_outcome file, c) \<and>
     (\<forall>loc. parse_all Release file (book_handler Release) (book_for loc) =
        Inr (session_outcome file, books loc)) \<and>
     (\<Sum>loc\<in>UNIV. adds (book_stats (books loc))) = census_count CHR ''A'' c + census_count CHR ''F'' c \<and>
     (\<Sum>loc\<in>UNIV. executions (book_stats (books loc))) = census_count CHR ''E'' c + census_count CHR ''C'' c \<and>
     (\<Sum>loc\<in>UNIV. cancels (book_stats (books loc))) = census_count CHR ''X'' c \<and>
     (\<Sum>loc\<in>UNIV. deletes (book_stats (books loc))) = census_count CHR ''D'' c \<and>
     (\<Sum>loc\<in>UNIV. trades (book_stats (books loc))) = census_count CHR ''P'' c \<and>
     (\<Sum>loc\<in>UNIV. unat (replaces (book_stats (books loc)))) \<le>
       length (filter (\<lambda>m. msg_type (message_header m) = CHR ''U'') (session_messages file))"
proof -
  obtain c where c: "parse_all Release file (census_handler Release) initial_census =
      Inr (session_outcome file, c)"
    using census.session_total [OF passes_asserts_Release] by blast
  obtain books where "\<And>loc. parse_all Release file (book_handler Release) (book_for loc) =
      Inr (session_outcome file, books loc)"
    using books_of_file by metis
  then show ?thesis
    using c tallies_of_books [of "file" books] census_type_count [OF c]
    by (intro exI [of _ c] exI [of _ books]) simp
qed

text \<open>
  C28. What \<open>itch_count\<close> does with a file of at most \<open>2 ^ 36\<close> bytes: it prints the report of the
  census of the file's messages and exits with 0 exactly when the file framed to its last
  byte and the timestamps never go backwards, with 1 otherwise. (That the counts agree,
  which the code also tests, always holds.)
\<close>

theorem itch_count_report:
  assumes "open_file path = Inr file" and "passes_asserts b file" and "length file \<le> 2 ^ 36"
  shows "\<exists>walked. itch_count_program b sort_rows open_file elapsed_ns [program, path] =
    Inr (if complete (session_outcome file) \<and> sorted (timestamps (session_messages file))
         then 0 else 1,
      census_text sort_rows path (length file) (session_outcome file)
        (census_of (session_messages file)) @ walked, [])"
proof -
  have "length file < 2 ^ 64" using assms(3) by simp
  from healthy_iff [OF this] show ?thesis
    using itch_count_program_prints [where open_file = open_file and path = path and elapsed_ns = elapsed_ns
        and sort_rows = sort_rows and program = program, OF assms(1,3,2)]
    by (auto simp: complete_session_outcome)
qed

theorem itch_count_report_witness:
  "\<exists>out. itch_count_program Debug (sort_key (\<lambda>row. - uint (snd row))) (\<lambda>_. Inr sample_file)
     1500 [''itch_count'', ''f''] = Inr (0, out, [])"
proof -
  have "sorted (timestamps sample_messages)"
    by (simp add: timestamps_def sample_lists sample_defs)
  then show ?thesis
    using itch_count_report [of "\<lambda>_. Inr sample_file" "''f''" sample_file Debug
        "sort_key (\<lambda>row. - uint (snd row))" 1500 "''itch_count''"]
    by (auto simp: sample_length sample_outcome complete_def)
qed

text \<open>
  C29. \<open>itch_count\<close> never runs into undefined behaviour and leaks nothing: on files of at most
  \<open>2 ^ 36\<close> bytes the release build ends with an exit code and its output, however the rows are
  sorted and however long it took, and the kernel is left as it was. The bound keeps the
  number of messages per second within its 64 bits.
\<close>

theorem itch_count_release_returns:
  assumes "\<And>path file. file_contents s k path = Inr file \<Longrightarrow> length file \<le> 2 ^ 36"
  shows "\<exists>out. itch_count_process Release sort_rows s elapsed_ns argv k = Inr (out, k)"
proof -
  have "\<exists>out. itch_count_session Release sort_rows elapsed_ns path file = Inr out"
    if "file_contents s k path = Inr file" for path "file"
  proof -
    have "passes_asserts Release file" by (simp add: passes_asserts_def)
    from itch_count_program_prints [where open_file = "file_contents s k" and path = path
        and elapsed_ns = elapsed_ns and sort_rows = sort_rows, OF that assms [OF that] this]
    show ?thesis by (auto simp: itch_count_program_def that)
  qed
  then have "\<exists>out. itch_count_program Release sort_rows (file_contents s k) elapsed_ns argv = Inr out"
    by (auto simp: itch_count_program_def itch_count_usage_def itch_count_failed_def
        split: list.split sum.split)
  then show ?thesis by (auto simp: itch_count_process_program)
qed

theorem itch_count_release_returns_witness:
  "\<exists>out. itch_count_process Release id sample_machine 1500 [''itch_count'', ''f'']
     \<lparr>open_fds = {#0, 1, 2#}, mappings = {#}\<rparr> =
       Inr (out, \<lparr>open_fds = {#0, 1, 2#}, mappings = {#}\<rparr>)"
proof (rule itch_count_release_returns)
  fix path :: string and contents
  assume "file_contents sample_machine \<lparr>open_fds = {#0, 1, 2#}, mappings = {#}\<rparr> path = Inr contents"
  then have "contents = sample_file" by (simp add: sample_contents)
  then show "length contents \<le> 2 ^ 36" by (simp add: sample_length)
qed

text \<open>
  C30. The rows of the report: whichever order the library's sort gives to equal counts, the
  counts descend, no type has two rows, a type has a row exactly when a message of the
  session has it, with the number of those messages, every row has a description, and the
  counts add up to the number of messages.
\<close>

theorem report_rows:
  assumes "sorts sort_rows" and "length file < 2 ^ 64"
  shows "let ms = session_messages file; rows = sort_rows (present (census_of ms)) in
    sorted_wrt (\<lambda>x y. snd y \<le> snd x) rows \<and> distinct (map fst rows) \<and>
    (\<forall>ty n. (ty, n) \<in> set rows \<longleftrightarrow>
       0 < unat n \<and> unat n = length (filter (\<lambda>m. msg_type (message_header m) = ty) ms)) \<and>
    (\<forall>ty n. (ty, n) \<in> set rows \<longrightarrow> describe_type ty \<noteq> []) \<and>
    sum_list (map (\<lambda>row. unat (snd row)) rows) = length ms"
proof -
  let ?ms = "session_messages file"
  have few: "length ?ms < 2 ^ 64"
    using session_messages_length [of "file"] assms(2) by (rule le_less_trans)
  have "(ty, n) \<in> set (present (census_of ?ms)) \<longleftrightarrow>
      0 < unat n \<and> unat n = length (filter (\<lambda>m. msg_type (message_header m) = ty) ?ms)" for ty n
    using unat_census_count [OF few, of ty]
    by (auto simp: set_present word_less_nat_alt word_unat_eq_iff)
  moreover have "describe_type ty \<noteq> []" if "(ty, n) \<in> set (present (census_of ?ms))" for ty n
    using that by (rule present_described)
  ultimately show ?thesis
    unfolding Let_def sorted_rows(1) [OF assms(1)] sum_sorted_rows [OF assms(1)]
    using sorted_rows(3) [OF assms(1)] distinct_present sum_present [OF few] by blast
qed

theorem report_rows_witness:
  "let rows = sort_key (\<lambda>row. - uint (snd row)) (present (census_of sample_messages)) in
     sorted_wrt (\<lambda>x y. snd y \<le> snd x) rows \<and> sum_list (map (\<lambda>row. unat (snd row)) rows) = 11"
proof -
  from report_rows [OF sorts_sort_key, of sample_file] show ?thesis
    by (simp add: sample_length Let_def) (simp add: sample_lists)
qed

text \<open>
  C31. The share column. Computed with three rounded \<open>double\<close> operations on two rounded
  operands, printed with two decimals: the printed number of hundredths is within 0.51 of the
  exact share, it never exceeds 100.00, and its column is six characters wide.
\<close>

theorem printed_share:
  assumes "length file < 2 ^ 64"
    and "(ty, n) \<in> set (present (census_of (session_messages file)))"
  shows "\<exists>h. row_text (message_total (census_of (session_messages file))) (ty, n) =
      ''  '' @ [ty] @ ''   '' @ right_aligned 14 (decimal (unat n)) @ ''  '' @
      right_aligned 6 (decimal (h div 100) @ ''.'' @ zero_padded 2 (h mod 100)) @ ''%  '' @
      describe_type ty @ newline \<and>
    \<bar>of_nat h - 10000 * of_nat (unat n) / of_nat (length (session_messages file))\<bar> \<le> (51 / 100 :: rat) \<and>
    h \<le> 10000 \<and>
    length (right_aligned 6 (decimal (h div 100) @ ''.'' @ zero_padded 2 (h mod 100))) = 6"
proof -
  have "length (session_messages file) < 2 ^ 64"
    using session_messages_length [of "file"] assms(1) by (rule le_less_trans)
  from row_text_share [OF this assms(2)] length_share_column show ?thesis by blast
qed

theorem printed_share_witness:
  "\<exists>h. \<bar>of_nat h - 10000 * 5 / 11\<bar> \<le> (51 / 100 :: rat) \<and>
     row_text (message_total (census_of sample_messages)) (CHR ''A'', 5) =
       ''  '' @ [CHR ''A''] @ ''   '' @ right_aligned 14 (decimal 5) @ ''  '' @
       right_aligned 6 (decimal (h div 100) @ ''.'' @ zero_padded 2 (h mod 100)) @ ''%  '' @
       ''Add Order'' @ newline"
proof -
  have "(CHR ''A'', 5) \<in> set (present (census_of (session_messages sample_file)))"
    by (simp add: set_present census_count_of) (simp add: sample_lists sample_defs)
  moreover have "length sample_file < 2 ^ 64" by (simp add: sample_length)
  moreover have "length sample_messages = 11" by (simp add: sample_lists)
  ultimately show ?thesis
    using printed_share [of sample_file "CHR ''A''" 5]
    by (auto simp: describe_type_def type_descriptions_def)
qed

text \<open>
  C32. \<open>itch_count\<close> agrees with \<open>reference_count.py\<close>, which shares no code with it: the same rows,
  in the same order when no two counts are equal, the same number of messages, bytes and
  event codes, and an error of the one exactly when the other stopped early, at its offset.
\<close>

theorem census_matches_reference:
  assumes "parse_all b file (census_handler b) initial_census = Inr (out, c)"
    and "length file < 2 ^ 64" and "sorts sort_rows"
  shows "let (st, error) = ref_census None file; rows = sort_rows (present c) in
    mset (map plain_row rows) = mset (ref_rows st) \<and>
    (distinct (map snd rows) \<longrightarrow> map plain_row rows = ref_rows st) \<and>
    rc_total st = messages out \<and> rc_consumed st = bytes_consumed out \<and>
    rc_events st = system_events c \<and> same_stop out error"
proof -
  let ?ms = "session_messages file"
  obtain st error where census: "ref_census None file = (st, error)" by fastforce
  have c: "c = census_of ?ms" "out = session_outcome file"
    using parse_census [OF assms(2) parse_all_Inr(1) [OF assms(1)]] assms(1) by simp_all
  have few: "length ?ms < 2 ^ 64"
    using session_messages_length [of "file"] assms(2) by (rule le_less_trans)
  have all: "lets_through None 0 (session_records file) = session_records file"
    "\<not> stopped_early None 0 (session_records file)"
    by (simp_all add: lets_through_def stopped_early_def)
  have st: "counts_messages ?ms (length (concat (map framed (session_records file)))) st"
    using ref_census_counts(1) [of None "file"] by (simp add: all census session_messages_def)
  have "length (concat (map framed (session_records file))) = bytes_consumed out"
    using session_records_sound(1) [of "file"]
    by (metis add_diff_cancel_right' bytes_consumed_session_outcome c(2) length_append)
  moreover have "same_stop out error"
    using ref_census_counts(2) [OF all(2)] by (simp add: census c(2))
  moreover have "system_events c = rc_events st"
    using st by (simp add: c(1) census_of_def counts_messages_def)
  ultimately show ?thesis
    using rows_agree [OF st few assms(3)] st
    by (simp add: census c(1) counts_messages_def) (simp add: c(2))
qed

theorem census_matches_reference_witness:
  "let (st, error) = ref_census None sample_file;
       rows = sort_key (\<lambda>row. - uint (snd row)) (present (census_of sample_messages)) in
     mset (map plain_row rows) = mset (ref_rows st) \<and> rc_total st = 11 \<and>
     rc_consumed st = 361 \<and> error = None"
proof -
  have "parse_all Release sample_file (census_handler Release) initial_census =
      Inr (session_outcome sample_file, census_of sample_messages)"
    by (simp add: parse_census sample_length)
  from census_matches_reference [OF this _ sorts_sort_key] show ?thesis
    by (auto simp: same_stop_def sample_length Let_def sample_outcome complete_def split: prod.splits)
qed

text \<open>
  C33. A printed time of day is never truncated and reads back as the nanoseconds it stands
  for, for all 64-bit values; its minutes, seconds and fraction have fixed widths.
\<close>

theorem time_of_day_round_trip:
  "read_time_of_day (format_time_of_day t) = unat t \<and> 18 \<le> length (format_time_of_day t)"
proof -
  have "2 \<le> length (zero_padded 2 n)" for n by (simp add: zero_padded_def)
  from this [of "unat t div 1000000000 div 3600"] show ?thesis
    using format_time_parts [of t] read_format_time [of t] by simp
qed

section \<open>Owning the mapped file\<close>

text \<open>
  C34. Single ownership, and no double unmapping: however objects are constructed, moved,
  assigned (to themselves included) and destroyed, every live mapping has exactly one owner
  among the live objects and no descriptor stays open, so nothing is left when the last
  object is gone; and every further operation on live objects succeeds, so a destructor or
  an assignment only unmaps what is still mapped.
\<close>

theorem mapped_file_single_owner:
  assumes "reachable s w w'" and "owns_all fds w"
  shows "mappings (kernel_of w') = owned (objects w') \<and> open_fds (kernel_of w') = fds \<and>
    (\<forall>op'. op_live w' op' \<longrightarrow> (\<exists>w''. file_step s op' w' = Inr w''))"
  using reachable_owns [OF assms] owns_all_progress [OF assms] by (simp add: owns_all_def)

theorem mapped_file_single_owner_witness:
  "let s = \<lparr>os_open = (\<lambda>_. Inr 3), os_fstat = (\<lambda>_. Inr 361), os_mmap = (\<lambda>_ _. Inr 4096)\<rparr>;
       w = \<lparr>objects = [\<lparr>mf_data = Some 4096, mf_size = 361\<rparr>, empty_file],
            kernel_of = \<lparr>open_fds = {#}, mappings = {#(4096, 361)#}\<rparr>\<rparr>
   in \<exists>w'. file_step s (MoveAssign 1 0) w = Inr w' \<and>
        mappings (kernel_of w') = owned (objects w') \<and>
        (\<exists>w''. file_step s (Destroy 0) w' = Inr w'')"
proof -
  define s where "s = \<lparr>os_open = (\<lambda>_. Inr 3), os_fstat = (\<lambda>_. Inr 361), os_mmap = (\<lambda>_ _. Inr 4096)\<rparr>"
  define w where "w = \<lparr>objects = [\<lparr>mf_data = Some 4096, mf_size = 361\<rparr>, empty_file],
    kernel_of = \<lparr>open_fds = {#}, mappings = {#(4096, 361)#}\<rparr>\<rparr>"
  have owns: "owns_all {#} w"
    by (simp add: owns_all_def w_def owned_by_def empty_file_def)
  obtain w' where step: "file_step s (MoveAssign 1 0) w = Inr w'" "length (objects w') = 2"
    by (auto simp: w_def move_assign_def release_def empty_file_def)
  have live: "op_live w (MoveAssign 1 0)" by (simp add: w_def)
  note single = mapped_file_single_owner [OF reachable.step [OF reachable.here live step(1)] owns]
  have "op_live w' (Destroy 0)" using step(2) by simp
  with single step(1) have "file_step s (MoveAssign 1 0) w = Inr w' \<and>
      mappings (kernel_of w') = owned (objects w') \<and> (\<exists>w''. file_step s (Destroy 0) w' = Inr w'')"
    by blast
  then show ?thesis unfolding Let_def s_def w_def by blast
qed

section \<open>Feeds the book does not expect\<close>

text \<open>
  C35. An Add for a reference that is still resting breaks the representation for good. The
  order joins the end of the queue at its price, but \<open>emplace\<close> keeps the old entry and the
  lookup table stays as it was. However the feed goes on, in either build, the new order
  rests in its node with all its shares, no entry of the table leads to it, so that nothing
  can execute, cancel or delete it, and \<open>check_rep\<close> fails.
\<close>

theorem duplicate_add_breaks_rep:
  assumes "rep_ok bk" and "stock_locate (ao_header m) = locate bk"
    and "\<not> fresh bk (ao_order_reference m)"
  shows "\<exists>bk'. book_add m bk = Inr bk' \<and> orders bk' = orders bk \<and>
    (\<forall>sd p. queue_at (side_levels sd bk') p = queue_at (side_levels sd bk) p @
       (if sd = side_of_flag (ao_side m = Buy) \<and> p = ao_price m
        then [(ao_order_reference m, ao_shares m)] else [])) \<and>
    (\<forall>b ms bk''. fold_run (deliver (book_handler b)) ms bk' = Inr bk'' \<longrightarrow>
       rests_at (side_levels (side_of_flag (ao_side m = Buy)) bk'') (ao_price m) (next_node bk)
         \<lparr>ro_order_reference = ao_order_reference m, ro_shares = ao_shares m\<rparr> \<and>
       (\<forall>ref. table_find ref (orders bk'') \<noteq>
          Some \<lparr>ol_side = side_of_flag (ao_side m = Buy), ol_price = ao_price m,
                ol_position = next_node bk\<rparr>) \<and>
       \<not> check_rep bk'')"
  by (rule duplicate_add_orphans [OF assms]) (simp add: orphaned_for_good)

theorem duplicate_add_breaks_rep_witness:
  "\<exists>bk'. book_add (sample_add 5 8 1 Sell 7 12) sample_book = Inr bk' \<and>
     queue_at (bids bk') 10 = [(1, 100), (2, 50)] \<and> (1, 7) \<in> set (queue_at (asks bk') 12) \<and>
     (\<forall>b ms bk''. fold_run (deliver (book_handler b)) ms bk' = Inr bk'' \<longrightarrow> \<not> check_rep bk'')"
proof -
  let ?m = "sample_add 5 8 1 Sell 7 12"
  have "\<not> fresh sample_book (ao_order_reference ?m)"
    by (simp add: fresh_def table_find_def sample_book_def sample_add_def)
  moreover have "stock_locate (ao_header ?m) = locate sample_book"
    by (simp add: sample_defs sample_book_def)
  ultimately obtain bk' where bk': "book_add ?m sample_book = Inr bk'"
    "\<forall>sd p. queue_at (side_levels sd bk') p = queue_at (side_levels sd sample_book) p @
      (if sd = side_of_flag (ao_side ?m = Buy) \<and> p = ao_price ?m
       then [(ao_order_reference ?m, ao_shares ?m)] else [])"
    "\<forall>b ms bk''. fold_run (deliver (book_handler b)) ms bk' = Inr bk'' \<longrightarrow> \<not> check_rep bk''"
    using duplicate_add_breaks_rep [OF sample_book_rep_ok] by blast
  have "queue_at (bids bk') 10 = [(1, 100), (2, 50)]" "(1, 7) \<in> set (queue_at (asks bk') 12)"
    using bk'(2) [rule_format, of Buy 10] bk'(2) [rule_format, of Sell 12]
    by (simp_all add: sample_book_queue sample_add_def side_of_flag_def)
  with bk'(1,3) show ?thesis by blast
qed

text \<open>
  C36. Executing more than rests, on any book that keeps its invariant: a debug build stops at
  the assertion; the release build counts the execution and keeps the order in its place with
  its shares less the executed ones modulo \<open>2 ^ 32\<close>. The total of the level that holds it goes
  down by the executed shares modulo \<open>2 ^ 64\<close>, which need not wrap when other orders rest
  there; no other total changes. The total is then not the sum of its queue, and \<open>check_rep\<close>
  fails.
\<close>

theorem over_execution:
  assumes "rep_ok bk" and "stock_locate (oe_header m) = locate bk"
    and "resting_shares bk (oe_order_reference m) = Some n" and "n < oe_executed_shares m"
  shows "book_executed Debug m bk = Inl AssertFailed \<and>
   (\<exists>bk'. book_executed Release m bk = Inr bk' \<and> \<not> check_rep bk' \<and>
      order_count bk' = order_count bk \<and> executions (book_stats bk') = executions (book_stats bk) + 1 \<and>
      (\<forall>sd p. queue_at (side_levels sd bk') p =
         map (\<lambda>(r, k). (r, if r = oe_order_reference m then k - oe_executed_shares m else k))
           (queue_at (side_levels sd bk) p)) \<and>
      (\<forall>sd p. total_at (side_levels sd bk') p =
         map_option (\<lambda>t. if oe_order_reference m \<in> fst ` set (queue_at (side_levels sd bk) p)
             then t - ucast (oe_executed_shares m) else t)
           (total_at (side_levels sd bk) p)))"
proof -
  note over = over_reduce [OF assms(1,3,4)]
  obtain bk1 where bk1: "reduce_or_remove Release (oe_order_reference m) (oe_executed_shares m) False bk = Inr bk1"
    "\<not> rep_ok bk1" "heap_ok bk1" "orders bk1 = orders bk" "book_stats bk1 = book_stats bk"
    and levels: "\<forall>sd p. queue_at (side_levels sd bk1) p =
      wrap_shares (oe_order_reference m) (oe_executed_shares m) (queue_at (side_levels sd bk) p)"
      "\<forall>sd p. total_at (side_levels sd bk1) p = charge_total (oe_order_reference m)
        (oe_executed_shares m) (queue_at (side_levels sd bk) p) (total_at (side_levels sd bk) p)"
    using over(2) by blast
  have "\<not> check_rep (bk1\<lparr>book_stats := st\<rparr>)" for st
    using check_rep_iff [of "bk1\<lparr>book_stats := st\<rparr>"] bk1(2,3) by simp
  with over(1) bk1 levels assms(2) show ?thesis
    by (simp add: book_executed_def order_count_def wrap_shares_def charge_total_def)
qed

theorem over_execution_witness:
  "book_executed Debug (sample_execute 5 8 1 101) sample_book = Inl AssertFailed \<and>
   (\<exists>bk'. book_executed Release (sample_execute 5 8 1 101) sample_book = Inr bk' \<and>
      queue_at (bids bk') 10 = [(1, 4294967295), (2, 50)] \<and> total_at (bids bk') 10 = Some 49 \<and>
      \<not> check_rep bk')"
proof -
  let ?m = "sample_execute 5 8 1 101"
  have m: "oe_order_reference ?m = 1" "oe_executed_shares ?m = 101" "stock_locate (oe_header ?m) = 5"
    by (simp_all add: sample_execute_def sample_header_def)
  have "resting_shares sample_book (oe_order_reference ?m) = Some 100" "locate sample_book = 5"
    by (simp_all add: resting_shares_def table_find_def sample_book_def sample_execute_def)
  from over_execution [OF sample_book_rep_ok _ this(1)] this(2)
  have debug: "book_executed Debug ?m sample_book = Inl AssertFailed" and
    "\<exists>bk'. book_executed Release ?m sample_book = Inr bk' \<and> \<not> check_rep bk' \<and>
      (\<forall>sd p. queue_at (side_levels sd bk') p =
        map (\<lambda>(r, k). (r, if r = 1 then k - 101 else k)) (queue_at (side_levels sd sample_book) p)) \<and>
      (\<forall>sd p. total_at (side_levels sd bk') p =
        map_option (\<lambda>t. if 1 \<in> fst ` set (queue_at (side_levels sd sample_book) p) then t - 101 else t)
          (total_at (side_levels sd sample_book) p))"
    by (auto simp: m cong: if_cong)
  then obtain bk' where bk': "book_executed Release ?m sample_book = Inr bk'" "\<not> check_rep bk'"
    and queues: "\<forall>sd p. queue_at (side_levels sd bk') p =
      map (\<lambda>(r, k). (r, if r = 1 then k - 101 else k)) (queue_at (side_levels sd sample_book) p)"
    and totals: "\<forall>sd p. total_at (side_levels sd bk') p =
      map_option (\<lambda>t. if 1 \<in> fst ` set (queue_at (side_levels sd sample_book) p) then t - 101 else t)
        (total_at (side_levels sd sample_book) p)"
    by blast
  have "total_at (bids sample_book) 10 = Some 150" by (simp add: total_at_def sample_book_def)
  with queues [rule_format, of Buy 10] totals [rule_format, of Buy 10] bk' debug
  show ?thesis by (simp add: sample_book_queue)
qed

text \<open>
  C37. The header says that every handler is a no-op until \<open>set_locate\<close> has run. It is not for
  messages whose stock locate is 0, the value of an unresolved book's locate: the unresolved
  book adds every such order, counts it and shows it as its best level.
\<close>

theorem unresolved_book_takes_locate_zero:
  assumes "stock_locate (ao_header m) = 0"
  shows "\<exists>bk. deliver (book_handler b) (AddOrder m) initial_book = Inr bk \<and>
    locate bk = 0 \<and> order_count bk = 1 \<and> adds (book_stats bk) = 1 \<and>
    (if ao_side m = Buy then best_bid bk else best_ask bk) =
      Some \<lparr>bl_price = ao_price m, bl_shares = ucast (ao_shares m)\<rparr>"
  using unresolved_add [OF assms] by (simp add: book_handler_def)

theorem unresolved_book_takes_locate_zero_witness:
  "\<exists>bk. deliver (book_handler Debug) (AddOrder (sample_add 0 4 1 Buy 100 10)) initial_book = Inr bk \<and>
     best_bid bk = Some \<lparr>bl_price = 10, bl_shares = 100\<rparr>"
proof -
  have "stock_locate (ao_header (sample_add 0 4 1 Buy 100 10)) = 0" by (simp add: sample_defs)
  from unresolved_book_takes_locate_zero [OF this, of Debug] show ?thesis
    by (auto simp: sample_defs)
qed

text \<open>
  C38. An announcement that assigns locate 0 to the symbol: a debug build of \<open>book_replay\<close> stops
  at the assertion of \<open>set_locate\<close>; the release build takes 0, its own sentinel, as the
  resolved locate and reports whatever the messages for locate 0 do to the book.
\<close>

theorem announcement_with_locate_zero:
  assumes "open_file path = Inr file" and "passes_asserts Debug file"
    and "session_messages file = pre @ StockDirectory d # rest"
    and "\<forall>m \<in> set pre. \<not> announces symbol m \<and> \<not> concerns 0 m"
    and "trim (sd_stock d) = symbol" and "stock_locate (sd_header d) = 0"
  shows "book_replay_program Debug open_file [program, path, symbol] = Inl AssertFailed \<and>
    (\<exists>bk. fold_run (deliver (book_handler Release)) rest initial_book = Inr bk \<and> locate bk = 0 \<and>
       book_replay_program Release open_file [program, path, symbol] =
         Inr (if complete (session_outcome file) then 0 else 1,
           replay_text (report_of symbol bk (session_outcome file)), []))"
proof -
  have waits: "\<forall>m \<in> set pre. waiting symbol m" using assms(4) by (simp add: waiting_def)
  have named: "announces symbol (StockDirectory d)" using assms(5) by simp
  note zero = book_replay_locate_zero [where open_file = open_file and path = path and program = program,
      OF assms(1-3) waits named assms(6)]
  show ?thesis
    using zero(2) book_replay_program_main [of Debug open_file "[program, path, symbol]"]
      book_replay_program_report
    by (fastforce simp: zero(1))
qed

theorem announcement_with_locate_zero_witness:
  "\<exists>bk. book_replay_program Release (\<lambda>_. Inr (encode_session [StockDirectory (sample_directory 0 3 ''AAPL    '')]))
     [''book_replay'', ''f'', ''AAPL''] =
       Inr (0, replay_text (report_of ''AAPL'' bk \<lparr>messages = 1, bytes_consumed = 41,
         frame_error = None, error_offset = 0, error_type = CHR 0x00\<rparr>), []) \<and> locate bk = 0"
proof -
  let ?d = "sample_directory 0 3 ''AAPL    ''" and ?file = "encode_session [StockDirectory (sample_directory 0 3 ''AAPL    '')]"
  have wf: "list_all wf_message [StockDirectory ?d]" by (simp add: sample_defs header_ok_def)
  have asserts: "passes_asserts Debug ?file" by (simp add: passes_asserts_encode [OF wf])
  have ms: "session_messages ?file = [] @ StockDirectory ?d # []" by (simp add: session_messages_encode [OF wf])
  have out: "session_outcome ?file = \<lparr>messages = 1, bytes_consumed = 41, frame_error = None,
      error_offset = 0, error_type = CHR 0x00\<rparr>"
    by (simp add: session_outcome_def split_outcome_def split_frames_encode_session [OF wf])
      (simp add: encode_session_def)
  have d: "trim (sd_stock ?d) = ''AAPL''" "stock_locate (sd_header ?d) = 0"
    by (simp_all add: sample_trim sample_directory_def sample_header_def)
  from announcement_with_locate_zero [of "\<lambda>_. Inr ?file" "''f''" ?file "[]" ?d "[]" "''AAPL''" "''book_replay''",
      OF refl asserts ms _ d]
  show ?thesis by (auto simp: out complete_def)
qed

text \<open>
  C39. Orders of zero shares are where the two books part. After adding a zero-share order and
  another order at one price and deleting the latter, the C++ book still has the level, the
  reference book has deleted it; deleting the zero-share order then raises \<open>KeyError\<close> in the
  reference and empties the C++ book.
\<close>

theorem zero_share_orders_differ:
  assumes "x \<noteq> y" and "n \<noteq> 0"
  shows "\<exists>bk rb. fold_run (deliver (book_handler b))
       [AddOrder (sample_add loc 4 x Buy 0 p), AddOrder (sample_add loc 5 y Buy n p),
        OrderDelete (sample_delete loc 6 y)] (book_for loc) = Inr bk \<and>
     Option.bind (Option.bind (ref_add (uint x) CHR ''B'' (uint p) 0 ref_init)
       (ref_add (uint y) CHR ''B'' (uint p) (uint n))) (ref_delete (uint y)) = Some rb \<and>
     bid_level_count bk = 1 \<and> length (rb_bid_levels rb) = 0 \<and>
     ref_delete (uint x) rb = None \<and>
     (\<exists>bk'. book_delete b (sample_delete loc 7 x) bk = Inr bk' \<and> bids bk' = [])"
  using assms
  by (simp add: sample_defs book_eval book_delete_def reduce_or_remove_def reduce_or_remove_in_def
      list_deref_def list_store_def list_erase_def bid_level_count_def
      ref_add_def ref_insert_def ref_init_def ref_levels_def ref_set_levels_def ref_delete_def
      ref_reduce_or_remove_def)

theorem zero_share_orders_differ_witness:
  "\<exists>rb. Option.bind (Option.bind (ref_add 1 CHR ''B'' 10 0 ref_init) (ref_add 2 CHR ''B'' 10 5))
     (ref_delete 2) = Some rb \<and> ref_delete 1 rb = None"
  using zero_share_orders_differ [of 1 2 5 Debug 5 10] by auto

text \<open>
  C40. An Add whose side byte is neither \<open>B\<close> nor \<open>S\<close>: a debug build stops at the decoder's
  assertion, although the framer accepted the record, whatever the book holds; the release
  build decodes a side with no name, and the book files the order at the end of the asks'
  queue for its price.
\<close>

theorem unnamed_side_rests_as_ask:
  assumes "wf_message (AddOrder m)" and "ao_side m = UnnamedSide c"
    and "heap_ok bk" and "stock_locate (ao_header m) = locate bk"
  shows "parse_all Debug (encode_session [AddOrder m]) (book_handler Debug) bk = Inl AssertFailed \<and>
    (\<exists>bk'. parse_all Release (encode_session [AddOrder m]) (book_handler Release) bk =
         Inr (session_outcome (encode_session [AddOrder m]), bk') \<and>
       (\<forall>sd p. queue_at (side_levels sd bk') p = queue_at (side_levels sd bk) p @
          (if sd = Sell \<and> p = ao_price m then [(ao_order_reference m, ao_shares m)] else [])))"
proof -
  have "\<not> names_side (AddOrder m)" using assms(2) by simp
  note stops = unnamed_side_stops [OF assms(1) this]
  have "passes_asserts Release (encode_session [AddOrder m])" by (simp add: passes_asserts_def)
  then have "parse_all Release (encode_session [AddOrder m]) (book_handler Release) bk =
      map_run (Pair (session_outcome (encode_session [AddOrder m]))) (book_add m bk)"
    using assms(1) by (cases "book_add m bk")
      (simp_all add: parse_all_deliver session_messages_encode book_handler_def)
  moreover obtain bk' where "book_add m bk = Inr bk'"
    "\<forall>sd p. queue_at (side_levels sd bk') p = queue_at (side_levels sd bk) p @
       (if sd = Sell \<and> p = ao_price m then [(ao_order_reference m, ao_shares m)] else [])"
    using add_unnamed_side [OF assms(3,4)] assms(2) by auto
  ultimately show ?thesis using stops by simp
qed

theorem unnamed_side_rests_as_ask_witness:
  "\<exists>bk'. parse_all Release (encode_session [AddOrder (sample_add 5 4 7 (UnnamedSide CHR ''X'') 100 12)])
       (book_handler Release) sample_book =
     Inr (session_outcome (encode_session [AddOrder (sample_add 5 4 7 (UnnamedSide CHR ''X'') 100 12)]), bk') \<and>
     queue_at (asks bk') 12 = [(7, 100)] \<and> queue_at (bids bk') 10 = [(1, 100), (2, 50)]"
proof -
  let ?m = "sample_add 5 4 7 (UnnamedSide CHR ''X'') 100 12"
  have wf: "wf_message (AddOrder ?m)"
    by (simp add: sample_defs header_ok_def side_ok_def side_of_char_def)
  obtain bk' where run: "parse_all Release (encode_session [AddOrder ?m]) (book_handler Release) sample_book =
      Inr (session_outcome (encode_session [AddOrder ?m]), bk')"
    and queues: "\<forall>sd p. queue_at (side_levels sd bk') p = queue_at (side_levels sd sample_book) p @
      (if sd = Sell \<and> p = 12 then [(7, 100)] else [])"
    using unnamed_side_rests_as_ask [OF wf _ rep_ok_heap [OF sample_book_rep_ok], of "CHR ''X''"]
    by (auto simp: sample_defs sample_book_def)
  have "queue_at (asks sample_book) 12 = []" by (simp add: sample_book_def queue_at_def)
  with run queues [rule_format, of Sell 12] queues [rule_format, of Buy 10] show ?thesis
    by (auto simp: sample_book_queue)
qed

end
